theory Spec2Isabelle
  imports Main "HOL-Library.Word"
begin

unbundle bit_operations_syntax

section \<open>Data model\<close>

type_synonym u8 = "8 word"
type_synonym u16 = "16 word"
type_synonym u32 = "32 word"

text \<open>The two enumerations, declared identically by every variant of the emulator.\<close>

datatype EmulatorState = QUIT | RUNNING | PAUSED

datatype Chip8Extension = CHIP8 | SUPERCHIP | XOCHIP

text \<open>
  A pointer value is the null pointer or \<open>Ptr b k\<close>, the address of element \<open>k\<close> of
  the array that object number \<open>b\<close> holds. A number names one object of one run of
  the emulator, so that an address brought in from another run points at nothing this
  run owns.
\<close>

datatype pointer = NULL | Ptr nat nat

text \<open>
  \<^verbatim>\<open>Chip8State\<close>, the struct of the complete emulator. Arrays are lists whose lengths
  the struct declaration fixes (\<open>sized\<close> below). The members \<^verbatim>\<open>uint16_t *stack_ptr\<close>
  and \<^verbatim>\<open>const char *rom_name\<close> are pointers: \<open>stack_ptr\<close> points at a slot of the
  array \<open>stack\<close> of a \<^verbatim>\<open>Chip8State\<close> object, \<open>rom_name\<close> at the characters of a
  file name.
\<close>

record Chip8State =
  state :: EmulatorState
  ram :: "u8 list"
  display :: "bool list"
  pixel_color :: "u32 list"
  stack :: "u16 list"
  stack_ptr :: pointer
  V :: "u8 list"
  I :: u16
  PC :: u16
  delay_timer :: u8
  sound_timer :: u8
  keypad :: "bool list"
  rom_name :: pointer
  draw :: bool

text \<open>
  The interpreter keeps two more variables, the \<^verbatim>\<open>static\<close> locals of the \<open>FX0A\<close>
  case. They persist between calls but are not members of the struct. \<open>location\<close> is
  the number of the object the struct is, the one that \<^verbatim>\<open>&chip8->stack[0]\<close> names; it
  is no member either, and nothing assigns it.
\<close>

record Machine = Chip8State +
  any_key_pressed :: bool
  key :: u8
  location :: nat

definition sized :: "Machine \<Rightarrow> bool" where
  "sized s \<longleftrightarrow>
     length (ram s) = 4096 \<and> length (display s) = 64 * 32 \<and>
     length (pixel_color s) = 64 * 32 \<and> length (stack s) = 12 \<and>
     length (V s) = 16 \<and> length (keypad s) = 16"

text \<open>
  C gives no meaning to an access outside an array. The model makes each such access
  a fault, named after the array.
\<close>

datatype fault =
  RamOutOfBounds | StackOutOfBounds | KeypadOutOfBounds | DisplayOutOfBounds | DivisionByZero

definition WINDOW_WIDTH :: nat where
  "WINDOW_WIDTH = 64"

definition WINDOW_HEIGHT :: nat where
  "WINDOW_HEIGHT = 32"

definition BG_COLOR :: u32 where
  "BG_COLOR = 0x000000FF"

definition ram_read :: "nat \<Rightarrow> Machine \<Rightarrow> fault + u8" where
  "ram_read a s = (if a < 4096 then Inr (ram s ! a) else Inl RamOutOfBounds)"

definition ram_write :: "nat \<Rightarrow> u8 \<Rightarrow> Machine \<Rightarrow> fault + Machine" where
  "ram_write a v s =
     (if a < 4096 then Inr (s\<lparr>ram := (ram s)[a := v]\<rparr>) else Inl RamOutOfBounds)"

definition keypad_read :: "nat \<Rightarrow> Machine \<Rightarrow> fault + bool" where
  "keypad_read k s = (if k < 16 then Inr (keypad s ! k) else Inl KeypadOutOfBounds)"

section \<open>Construction\<close>

definition font :: "u8 list" where
  "font =
    [0xF0, 0x90, 0x90, 0x90, 0xF0, 0x20, 0x60, 0x20, 0x20, 0x70,
     0xF0, 0x10, 0xF0, 0x80, 0xF0, 0xF0, 0x10, 0xF0, 0x10, 0xF0,
     0x90, 0x90, 0xF0, 0x10, 0x10, 0xF0, 0x80, 0xF0, 0x10, 0xF0,
     0xF0, 0x80, 0xF0, 0x90, 0xF0, 0xF0, 0x10, 0x20, 0x40, 0x40,
     0xF0, 0x90, 0xF0, 0x90, 0xF0, 0xF0, 0x90, 0xF0, 0x10, 0xF0,
     0xF0, 0x90, 0xF0, 0x90, 0x90, 0xE0, 0x90, 0xE0, 0x90, 0xE0,
     0xF0, 0x80, 0x80, 0x80, 0xF0, 0xE0, 0x90, 0x90, 0x90, 0xE0,
     0xF0, 0x80, 0xF0, 0x80, 0xF0, 0xF0, 0x80, 0xF0, 0x80, 0x80]"

text \<open>
  \<open>init_chip8\<close>: the ROM file is its list of bytes, \<open>None\<close> when it cannot be
  opened. The function clears the struct, copies the font to address 0 and the ROM to
  \<open>0x200\<close>. It returns \<open>false\<close> (here \<open>None\<close>) when there is no file, when the ROM
  is larger than \<open>4096 - 0x200\<close> bytes, and when \<open>fread\<close> does not deliver one item
  of \<open>rom_size\<close> bytes, which is the case for an empty file. \<open>memset\<close> fills
  \<open>pixel_color\<close> with the low byte of \<open>BG_COLOR\<close>. The parameter \<open>rom_name\<close>
  (here \<open>name\<close>) is stored as the pointer it is, and \<open>stack_ptr\<close> is set to
  \<^verbatim>\<open>&chip8->stack[0]\<close>. The static locals of \<open>FX0A\<close> are not touched.
\<close>

definition init_chip8 :: "u8 list option \<Rightarrow> pointer \<Rightarrow> Machine \<Rightarrow> Machine option" where
  "init_chip8 rom name chip8 =
     (case rom of
        None \<Rightarrow> None
      | Some bytes \<Rightarrow>
          let entry_point = 0x200;
              rom_size = length bytes;
              max_size = 4096 - entry_point
          in if rom_size > max_size then None
             else if rom_size = 0 then None
             else Some (chip8\<lparr>
               state := RUNNING,
               ram := font @ replicate (entry_point - length font) 0 @ bytes
                        @ replicate (max_size - rom_size) 0,
               display := replicate (64 * 32) False,
               pixel_color := replicate (64 * 32)
                  (let b = (ucast (ucast BG_COLOR :: u8) :: u32)
                   in b OR push_bit 8 b OR push_bit 16 b OR push_bit 24 b),
               stack := replicate 12 0,
               stack_ptr := Ptr (location chip8) 0,
               V := replicate 16 0,
               I := 0,
               PC := word_of_nat entry_point,
               delay_timer := 0,
               sound_timer := 0,
               keypad := replicate 16 False,
               rom_name := name,
               draw := False\<rparr>))"

text \<open>
  The state of \<open>main\<close> before its call of \<open>init_chip8\<close>: \<^verbatim>\<open>Chip8State chip8 = {0}\<close>
  and the static locals at their initialisers. The struct of \<open>main\<close> is object 0 and
  the string \<^verbatim>\<open>argv[1]\<close> is object 1.
\<close>

definition zeroed :: Machine where
  "zeroed = \<lparr>state = QUIT, ram = replicate 4096 0, display = replicate (64 * 32) False,
     pixel_color = replicate (64 * 32) 0, stack = replicate 12 0, stack_ptr = NULL,
     V = replicate 16 0, I = 0, PC = 0, delay_timer = 0, sound_timer = 0,
     keypad = replicate 16 False, rom_name = NULL, draw = False,
     any_key_pressed = False, key = 0xFF, location = 0\<rparr>"

definition argv1 :: pointer where
  "argv1 = Ptr 1 0"

section \<open>The interpreter, \<open>emulate_instruction\<close>\<close>

definition fetch :: "Machine \<Rightarrow> fault + u16" where
  "fetch s =
     (case ram_read (unat (PC s)) s of
        Inl e \<Rightarrow> Inl e
      | Inr hi \<Rightarrow>
          (case ram_read (unat (PC s) + 1) s of
             Inl e \<Rightarrow> Inl e
           | Inr lo \<Rightarrow> Inr (push_bit 8 (ucast hi) OR ucast lo)))"

definition op_class :: "u16 \<Rightarrow> u16" where
  "op_class opcode = drop_bit 12 opcode AND 0x0F"

definition op_NNN :: "u16 \<Rightarrow> u16" where
  "op_NNN opcode = opcode AND 0x0FFF"

definition op_NN :: "u16 \<Rightarrow> u8" where
  "op_NN opcode = ucast (opcode AND 0xFF)"

definition op_N :: "u16 \<Rightarrow> u8" where
  "op_N opcode = ucast (opcode AND 0xF)"

definition op_X :: "u16 \<Rightarrow> nat" where
  "op_X opcode = unat (drop_bit 8 opcode AND 0xF)"

definition op_Y :: "u16 \<Rightarrow> nat" where
  "op_Y opcode = unat (drop_bit 4 opcode AND 0xF)"

text \<open>
  Class 0: \<open>00E0\<close> clears the display, \<open>00EE\<close> returns from a subroutine with
  \<^verbatim>\<open>chip8->PC = *--chip8->stack_ptr;\<close>. The access through \<open>stack_ptr\<close> has a meaning
  only when the pointer is into the array \<open>stack\<close> of this very struct.
\<close>

definition exec_0 :: "u8 \<Rightarrow> Machine \<Rightarrow> fault + Machine" where
  "exec_0 NN s =
     (if NN = 0xE0 then Inr (s\<lparr>display := replicate (64 * 32) False, draw := True\<rparr>)
      else if NN = 0xEE then
        (case stack_ptr s of
           NULL \<Rightarrow> Inl StackOutOfBounds
         | Ptr b k \<Rightarrow>
             if b \<noteq> location s \<or> k = 0 \<or> k > 12 then Inl StackOutOfBounds
             else Inr (s\<lparr>stack_ptr := Ptr b (k - 1), PC := stack s ! (k - 1)\<rparr>))
      else Inr s)"

text \<open>Class 2: \<^verbatim>\<open>*chip8->stack_ptr++ = chip8->PC; chip8->PC = NNN;\<close>\<close>

definition exec_2 :: "u16 \<Rightarrow> Machine \<Rightarrow> fault + Machine" where
  "exec_2 NNN s =
     (case stack_ptr s of
        NULL \<Rightarrow> Inl StackOutOfBounds
      | Ptr b k \<Rightarrow>
          if b \<noteq> location s \<or> k \<ge> 12 then Inl StackOutOfBounds
          else Inr (s\<lparr>stack := (stack s)[k := PC s], stack_ptr := Ptr b (k + 1), PC := NNN\<rparr>))"

text \<open>
  Class 8, the register operations. \<open>carry\<close> is computed before \<open>V[X]\<close> is written,
  and \<open>V[0xF]\<close> is written last. \<open>ext\<close> is the constant \<open>CURRENT_EXTENSION\<close>, which
  the source sets to \<open>CHIP8\<close>.
\<close>

definition exec_8 :: "Chip8Extension \<Rightarrow> u8 \<Rightarrow> nat \<Rightarrow> nat \<Rightarrow> Machine \<Rightarrow> Machine" where
  "exec_8 ext N X Y s =
     (if N = 0 then s\<lparr>V := (V s)[X := V s ! Y]\<rparr>
      else if N = 1 then
        (let s1 = s\<lparr>V := (V s)[X := V s ! X OR V s ! Y]\<rparr>
         in if ext = CHIP8 then s1\<lparr>V := (V s1)[0xF := 0]\<rparr> else s1)
      else if N = 2 then
        (let s1 = s\<lparr>V := (V s)[X := V s ! X AND V s ! Y]\<rparr>
         in if ext = CHIP8 then s1\<lparr>V := (V s1)[0xF := 0]\<rparr> else s1)
      else if N = 3 then
        (let s1 = s\<lparr>V := (V s)[X := V s ! X XOR V s ! Y]\<rparr>
         in if ext = CHIP8 then s1\<lparr>V := (V s1)[0xF := 0]\<rparr> else s1)
      else if N = 4 then
        (let carry = ((ucast (V s ! X) + ucast (V s ! Y) :: u16) > 255);
             s1 = s\<lparr>V := (V s)[X := V s ! X + V s ! Y]\<rparr>
         in s1\<lparr>V := (V s1)[0xF := of_bool carry]\<rparr>)
      else if N = 5 then
        (let carry = (V s ! Y \<le> V s ! X);
             s1 = s\<lparr>V := (V s)[X := V s ! X - V s ! Y]\<rparr>
         in s1\<lparr>V := (V s1)[0xF := of_bool carry]\<rparr>)
      else if N = 6 then
        (let (carry, s1) =
               (if ext = CHIP8
                then (V s ! Y AND 1 \<noteq> 0, s\<lparr>V := (V s)[X := drop_bit 1 (V s ! Y)]\<rparr>)
                else (V s ! X AND 1 \<noteq> 0, s\<lparr>V := (V s)[X := drop_bit 1 (V s ! X)]\<rparr>))
         in s1\<lparr>V := (V s1)[0xF := of_bool carry]\<rparr>)
      else if N = 7 then
        (let carry = (V s ! X \<le> V s ! Y);
             s1 = s\<lparr>V := (V s)[X := V s ! Y - V s ! X]\<rparr>
         in s1\<lparr>V := (V s1)[0xF := of_bool carry]\<rparr>)
      else if N = 0xE then
        (let (carry, s1) =
               (if ext = CHIP8
                then (drop_bit 7 (V s ! Y AND 0x80) \<noteq> 0,
                      s\<lparr>V := (V s)[X := push_bit 1 (V s ! Y)]\<rparr>)
                else (drop_bit 7 (V s ! X AND 0x80) \<noteq> 0,
                      s\<lparr>V := (V s)[X := push_bit 1 (V s ! X)]\<rparr>))
         in s1\<lparr>V := (V s1)[0xF := of_bool carry]\<rparr>)
      else s)"

text \<open>
  Class D, the sprite. The inner loop runs \<open>j\<close> from 7 down to 0; the equation for
  \<open>Suc j\<close> is the body at that \<open>j\<close>, and 0 is the exit \<open>j < 0\<close>. \<open>X_coord\<close> and
  \<open>Y_coord\<close> are \<^verbatim>\<open>uint8_t\<close> below 64 and 32 when incremented, so they never wrap,
  and \<open>Y_coord * WINDOW_WIDTH + X_coord\<close> is below \<open>64 * 32\<close>.
\<close>

fun draw_bits :: "u8 \<Rightarrow> nat \<Rightarrow> nat \<Rightarrow> nat \<Rightarrow> Machine \<Rightarrow> Machine" where
  "draw_bits sprite_data 0 X_coord Y_coord s = s"
| "draw_bits sprite_data (Suc j) X_coord Y_coord s =
     (let p = Y_coord * WINDOW_WIDTH + X_coord;
          pixel = display s ! p;
          sprite_bit = (sprite_data AND push_bit j 1 \<noteq> 0);
          s1 = (if sprite_bit \<and> pixel then s\<lparr>V := (V s)[0xF := 1]\<rparr> else s);
          s2 = s1\<lparr>display := (display s1)[p := (pixel \<noteq> sprite_bit)]\<rparr>
      in if X_coord + 1 \<ge> WINDOW_WIDTH then s2
         else draw_bits sprite_data j (X_coord + 1) Y_coord s2)"

function draw_rows :: "nat \<Rightarrow> nat \<Rightarrow> nat \<Rightarrow> nat \<Rightarrow> Machine \<Rightarrow> fault + Machine" where
  "draw_rows i N orig_X Y_coord s =
     (if i < N then
        (case ram_read (unat (I s) + i) s of
           Inl e \<Rightarrow> Inl e
         | Inr sprite_data \<Rightarrow>
             (let s1 = draw_bits sprite_data 8 orig_X Y_coord s
              in if Y_coord + 1 \<ge> WINDOW_HEIGHT then Inr s1
                 else draw_rows (i + 1) N orig_X (Y_coord + 1) s1))
      else Inr s)"
  by pat_completeness auto
termination
  by (relation "measure (\<lambda>(i, N, orig_X, Y_coord, s). N - i)") auto

declare draw_rows.simps [simp del]

definition exec_D :: "nat \<Rightarrow> nat \<Rightarrow> nat \<Rightarrow> Machine \<Rightarrow> fault + Machine" where
  "exec_D N X Y s =
     (let X_coord = unat (V s ! X) mod WINDOW_WIDTH;
          Y_coord = unat (V s ! Y) mod WINDOW_HEIGHT;
          orig_X = X_coord;
          s1 = s\<lparr>V := (V s)[0xF := 0]\<rparr>
      in case draw_rows 0 N orig_X Y_coord s1 of
           Inl e \<Rightarrow> Inl e
         | Inr s2 \<Rightarrow> Inr (s2\<lparr>draw := True\<rparr>))"

text \<open>Class E: \<open>keypad\<close> is indexed by the whole byte \<open>V[X]\<close>.\<close>

definition exec_E :: "u8 \<Rightarrow> nat \<Rightarrow> Machine \<Rightarrow> fault + Machine" where
  "exec_E NN X s =
     (if NN = 0x9E then
        (case keypad_read (unat (V s ! X)) s of
           Inl e \<Rightarrow> Inl e
         | Inr pressed \<Rightarrow> Inr (if pressed then s\<lparr>PC := PC s + 2\<rparr> else s))
      else if NN = 0xA1 then
        (case keypad_read (unat (V s ! X)) s of
           Inl e \<Rightarrow> Inl e
         | Inr pressed \<Rightarrow> Inr (if \<not> pressed then s\<lparr>PC := PC s + 2\<rparr> else s))
      else Inr s)"

text \<open>
  \<open>FX0A\<close>. The scan
  \<^verbatim>\<open>for (i = 0; key == 0xFF && i < sizeof chip8->keypad; i++)\<close> captures the first
  pressed key; the rest decides between repeating the instruction and storing the key.
\<close>

function scan_keypad :: "nat \<Rightarrow> Machine \<Rightarrow> Machine" where
  "scan_keypad i s =
     (if key s = 0xFF \<and> i < 16 then
        (if keypad s ! i then s\<lparr>key := word_of_nat i, any_key_pressed := True\<rparr>
         else scan_keypad (i + 1) s)
      else s)"
  by pat_completeness auto
termination
  by (relation "measure (\<lambda>(i, s). 16 - i)") auto

declare scan_keypad.simps [simp del]

definition exec_F0A :: "nat \<Rightarrow> Machine \<Rightarrow> fault + Machine" where
  "exec_F0A X s =
     (let s1 = scan_keypad 0 s
      in if \<not> any_key_pressed s1 then Inr (s1\<lparr>PC := PC s1 - 2\<rparr>)
         else
           (case keypad_read (unat (key s1)) s1 of
              Inl e \<Rightarrow> Inl e
            | Inr pressed \<Rightarrow>
                if pressed then Inr (s1\<lparr>PC := PC s1 - 2\<rparr>)
                else Inr (s1\<lparr>V := (V s1)[X := key s1], key := 0xFF,
                              any_key_pressed := False\<rparr>)))"

text \<open>\<open>FX33\<close> writes the digits at \<open>I + 2\<close>, \<open>I + 1\<close> and \<open>I\<close>, in that order.\<close>

definition exec_F33 :: "nat \<Rightarrow> Machine \<Rightarrow> fault + Machine" where
  "exec_F33 X s =
     (let bcd = V s ! X
      in case ram_write (unat (I s) + 2) (bcd mod 10) s of
           Inl e \<Rightarrow> Inl e
         | Inr s1 \<Rightarrow>
             (let bcd1 = bcd div 10
              in case ram_write (unat (I s1) + 1) (bcd1 mod 10) s1 of
                   Inl e \<Rightarrow> Inl e
                 | Inr s2 \<Rightarrow> ram_write (unat (I s2)) (bcd1 div 10) s2))"

text \<open>
  \<open>FX55\<close> and \<open>FX65\<close>: \<^verbatim>\<open>for (uint8_t i = 0; i <= X; i++)\<close>, with \<open>X \<le> 15\<close>. Under
  \<open>CHIP8\<close> each transfer goes through \<^verbatim>\<open>chip8->I++\<close>, otherwise through
  \<^verbatim>\<open>chip8->I + i\<close>.
\<close>

function exec_F55 :: "Chip8Extension \<Rightarrow> nat \<Rightarrow> nat \<Rightarrow> Machine \<Rightarrow> fault + Machine" where
  "exec_F55 ext i X s =
     (if i \<le> X then
        (if ext = CHIP8 then
           (case ram_write (unat (I s)) (V s ! i) s of
              Inl e \<Rightarrow> Inl e
            | Inr s1 \<Rightarrow> exec_F55 ext (i + 1) X (s1\<lparr>I := I s1 + 1\<rparr>))
         else
           (case ram_write (unat (I s) + i) (V s ! i) s of
              Inl e \<Rightarrow> Inl e
            | Inr s1 \<Rightarrow> exec_F55 ext (i + 1) X s1))
      else Inr s)"
  by pat_completeness auto
termination
  by (relation "measure (\<lambda>(ext, i, X, s). Suc X - i)") auto

declare exec_F55.simps [simp del]

function exec_F65 :: "Chip8Extension \<Rightarrow> nat \<Rightarrow> nat \<Rightarrow> Machine \<Rightarrow> fault + Machine" where
  "exec_F65 ext i X s =
     (if i \<le> X then
        (if ext = CHIP8 then
           (case ram_read (unat (I s)) s of
              Inl e \<Rightarrow> Inl e
            | Inr b \<Rightarrow> exec_F65 ext (i + 1) X (s\<lparr>V := (V s)[i := b], I := I s + 1\<rparr>))
         else
           (case ram_read (unat (I s) + i) s of
              Inl e \<Rightarrow> Inl e
            | Inr b \<Rightarrow> exec_F65 ext (i + 1) X (s\<lparr>V := (V s)[i := b]\<rparr>)))
      else Inr s)"
  by pat_completeness auto
termination
  by (relation "measure (\<lambda>(ext, i, X, s). Suc X - i)") auto

declare exec_F65.simps [simp del]

definition exec_F :: "Chip8Extension \<Rightarrow> u8 \<Rightarrow> nat \<Rightarrow> Machine \<Rightarrow> fault + Machine" where
  "exec_F ext NN X s =
     (if NN = 0x0A then exec_F0A X s
      else if NN = 0x1E then Inr (s\<lparr>I := I s + ucast (V s ! X)\<rparr>)
      else if NN = 0x07 then Inr (s\<lparr>V := (V s)[X := delay_timer s]\<rparr>)
      else if NN = 0x15 then Inr (s\<lparr>delay_timer := V s ! X\<rparr>)
      else if NN = 0x18 then Inr (s\<lparr>sound_timer := V s ! X\<rparr>)
      else if NN = 0x29 then Inr (s\<lparr>I := ucast (V s ! X) * 5\<rparr>)
      else if NN = 0x33 then exec_F33 X s
      else if NN = 0x55 then exec_F55 ext 0 X s
      else if NN = 0x65 then exec_F65 ext 0 X s
      else Inr s)"

text \<open>
  The dispatch on the top nibble, after the fetch and \<^verbatim>\<open>chip8->PC += 2\<close>. \<open>rnd\<close> is
  the value \<open>rand()\<close> returns in class C.
\<close>

definition exec_opcode :: "Chip8Extension \<Rightarrow> nat \<Rightarrow> u16 \<Rightarrow> Machine \<Rightarrow> fault + Machine" where
  "exec_opcode ext rnd opcode s =
     (let NNN = op_NNN opcode; NN = op_NN opcode; N = op_N opcode;
          X = op_X opcode; Y = op_Y opcode; c = op_class opcode
      in if c = 0x00 then exec_0 NN s
         else if c = 0x01 then Inr (s\<lparr>PC := NNN\<rparr>)
         else if c = 0x02 then exec_2 NNN s
         else if c = 0x03 then Inr (if V s ! X = NN then s\<lparr>PC := PC s + 2\<rparr> else s)
         else if c = 0x04 then Inr (if V s ! X \<noteq> NN then s\<lparr>PC := PC s + 2\<rparr> else s)
         else if c = 0x05 then
           Inr (if N \<noteq> 0 then s
                else if V s ! X = V s ! Y then s\<lparr>PC := PC s + 2\<rparr> else s)
         else if c = 0x06 then Inr (s\<lparr>V := (V s)[X := NN]\<rparr>)
         else if c = 0x07 then Inr (s\<lparr>V := (V s)[X := V s ! X + NN]\<rparr>)
         else if c = 0x08 then Inr (exec_8 ext N X Y s)
         else if c = 0x09 then Inr (if V s ! X \<noteq> V s ! Y then s\<lparr>PC := PC s + 2\<rparr> else s)
         else if c = 0x0A then Inr (s\<lparr>I := NNN\<rparr>)
         else if c = 0x0B then Inr (s\<lparr>PC := ucast (V s ! 0) + NNN\<rparr>)
         else if c = 0x0C then Inr (s\<lparr>V := (V s)[X := word_of_nat (rnd mod 256) AND NN]\<rparr>)
         else if c = 0x0D then exec_D (unat N) X Y s
         else if c = 0x0E then exec_E NN X s
         else if c = 0x0F then exec_F ext NN X s
         else Inr s)"

definition emulate_instruction :: "Chip8Extension \<Rightarrow> nat \<Rightarrow> Machine \<Rightarrow> fault + Machine" where
  "emulate_instruction ext rnd s =
     (case fetch s of
        Inl e \<Rightarrow> Inl e
      | Inr opcode \<Rightarrow> exec_opcode ext rnd opcode (s\<lparr>PC := PC s + 2\<rparr>))"

text \<open>
  A run of the interpreter: one call of \<open>emulate_instruction\<close> for each element of
  \<open>rnds\<close>, the values \<open>rand()\<close> would return, with the keypad left as it is.
\<close>

fun run :: "Chip8Extension \<Rightarrow> nat list \<Rightarrow> Machine \<Rightarrow> fault + Machine" where
  "run ext [] s = Inr s"
| "run ext (rnd # rnds) s =
     (case emulate_instruction ext rnd s of
        Inl e \<Rightarrow> Inl e
      | Inr s1 \<Rightarrow> run ext rnds s1)"

section \<open>Timers\<close>

text \<open>
  \<open>update_timers\<close>; the second component is the argument of the call of
  \<open>SDL_PauseAudioDevice\<close> (0 plays, 1 pauses).
\<close>

definition update_timers :: "Machine \<Rightarrow> Machine \<times> nat" where
  "update_timers s =
     (let s1 = (if delay_timer s > 0 then s\<lparr>delay_timer := delay_timer s - 1\<rparr> else s)
      in if sound_timer s1 > 0 then (s1\<lparr>sound_timer := sound_timer s1 - 1\<rparr>, 0)
         else (s1, 1))"

text \<open>The machine \<open>main\<close> runs: the zeroed struct, initialised from the ROM.\<close>

definition boot :: "u8 list \<Rightarrow> Machine" where
  "boot bytes = the (init_chip8 (Some bytes) argv1 zeroed)"

section \<open>Input\<close>

text \<open>
  \<open>handle_input\<close>, for the events of the sixteen keys that stand for the keypad: it
  takes the pending events in order; \<open>SDL_KEYDOWN\<close> sets the entry of \<open>keypad\<close> that
  the key stands for and \<open>SDL_KEYUP\<close> clears it. The events that quit, pause, restart,
  save and load are not in this model.
\<close>

datatype SDL_Keycode =
  SDLK_1 | SDLK_2 | SDLK_3 | SDLK_4 | SDLK_q | SDLK_w | SDLK_e | SDLK_r |
  SDLK_a | SDLK_s | SDLK_d | SDLK_f | SDLK_z | SDLK_x | SDLK_c | SDLK_v

datatype SDL_Event = SDL_KEYDOWN SDL_Keycode | SDL_KEYUP SDL_Keycode

fun keypad_index :: "SDL_Keycode \<Rightarrow> nat" where
  "keypad_index SDLK_1 = 0x1"
| "keypad_index SDLK_2 = 0x2"
| "keypad_index SDLK_3 = 0x3"
| "keypad_index SDLK_4 = 0xC"
| "keypad_index SDLK_q = 0x4"
| "keypad_index SDLK_w = 0x5"
| "keypad_index SDLK_e = 0x6"
| "keypad_index SDLK_r = 0xD"
| "keypad_index SDLK_a = 0x7"
| "keypad_index SDLK_s = 0x8"
| "keypad_index SDLK_d = 0x9"
| "keypad_index SDLK_f = 0xE"
| "keypad_index SDLK_z = 0xA"
| "keypad_index SDLK_x = 0x0"
| "keypad_index SDLK_c = 0xB"
| "keypad_index SDLK_v = 0xF"

fun handle_input :: "SDL_Event list \<Rightarrow> Machine \<Rightarrow> Machine" where
  "handle_input [] chip8 = chip8"
| "handle_input (SDL_KEYDOWN keysym # events) chip8 =
     handle_input events (chip8\<lparr>keypad := (keypad chip8)[keypad_index keysym := True]\<rparr>)"
| "handle_input (SDL_KEYUP keysym # events) chip8 =
     handle_input events (chip8\<lparr>keypad := (keypad chip8)[keypad_index keysym := False]\<rparr>)"

section \<open>Snapshots\<close>

text \<open>
  \<open>save_state\<close> writes the object \<^verbatim>\<open>*chip8\<close> with one \<open>fwrite\<close> of
  \<^verbatim>\<open>sizeof(Chip8State)\<close> bytes and \<open>load_state\<close> reads it back with one \<open>fread\<close>.
  The bytes of the object are the values of its members, and those of a pointer member
  are the address it holds, not what it points at. A file is absent (\<open>NoFile\<close>),
  holds a whole struct (\<open>File\<close>), or holds fewer bytes than a struct (\<open>ShortFile\<close>).

  \<open>save_state\<close>: \<open>opens\<close> says whether \<open>fopen\<close> succeeds and \<open>writes\<close> whether
  \<open>fwrite\<close> does; \<open>old\<close> is the file before the call. A failing \<open>fopen\<close> leaves the
  file as it was; a succeeding one truncates it, so that a failing \<open>fwrite\<close> leaves a
  short file.

  \<open>load_state\<close>: with no file it returns \<open>false\<close> and the struct is untouched. With a
  short file \<open>fread\<close> has stored into the struct what bytes there were before
  \<open>load_state\<close> returns \<open>false\<close>; C leaves the value of an object read in part
  indeterminate, here \<open>None\<close>. With a whole struct every member, the two pointers among
  them, takes the value from the file. Neither function refers to the static locals of
  \<open>FX0A\<close>, and the struct stays the object it was.
\<close>

datatype struct_file = NoFile | ShortFile | File Chip8State

definition save_state :: "bool \<Rightarrow> bool \<Rightarrow> struct_file \<Rightarrow> Machine \<Rightarrow> bool \<times> struct_file" where
  "save_state opens writes old chip8 =
     (if \<not> opens then (False, old)
      else if \<not> writes then (False, ShortFile)
      else (True, File
        \<lparr>state = state chip8, ram = ram chip8, display = display chip8,
         pixel_color = pixel_color chip8, stack = stack chip8, stack_ptr = stack_ptr chip8,
         V = V chip8, I = I chip8, PC = PC chip8, delay_timer = delay_timer chip8,
         sound_timer = sound_timer chip8, keypad = keypad chip8, rom_name = rom_name chip8,
         draw = draw chip8\<rparr>))"

definition load_state :: "struct_file \<Rightarrow> Machine \<Rightarrow> bool \<times> Machine option" where
  "load_state file chip8 =
     (case file of
        NoFile \<Rightarrow> (False, Some chip8)
      | ShortFile \<Rightarrow> (False, None)
      | File img \<Rightarrow>
          (True, Some (chip8\<lparr>state := state img, ram := ram img, display := display img,
             pixel_color := pixel_color img, stack := stack img, stack_ptr := stack_ptr img,
             V := V img, I := I img, PC := PC img, delay_timer := delay_timer img,
             sound_timer := sound_timer img, keypad := keypad img, rom_name := rom_name img,
             draw := draw img\<rparr>)))"

text \<open>
  The variant that keeps the emulator in global variables (same fields, \<open>pixels\<close> for
  \<open>pixel_color\<close>) writes them one \<open>fwrite\<close> each: \<open>ram\<close>, \<open>display\<close>, \<open>pixels\<close>,
  \<open>stack\<close>, \<open>V\<close>, \<open>I\<close>, \<open>PC\<close>, \<open>delay_timer\<close>, \<open>sound_timer\<close>, \<open>keypad\<close>.
  The file is its list of bytes, \<open>None\<close> when there is none; multi-byte values are
  little-endian, a \<open>bool\<close> is one byte.
\<close>

definition le16 :: "u16 \<Rightarrow> u8 list" where
  "le16 w = [ucast w, ucast (drop_bit 8 w)]"

definition le32 :: "u32 \<Rightarrow> u8 list" where
  "le32 w = [ucast w, ucast (drop_bit 8 w), ucast (drop_bit 16 w), ucast (drop_bit 24 w)]"

definition bool_byte :: "bool \<Rightarrow> u8" where
  "bool_byte b = (if b then 1 else 0)"

definition byte_bool :: "u8 \<Rightarrow> bool" where
  "byte_bool v \<longleftrightarrow> v \<noteq> 0"

fun words16 :: "u8 list \<Rightarrow> u16 list" where
  "words16 (a # b # bs) = (ucast a OR push_bit 8 (ucast b)) # words16 bs"
| "words16 bs = []"

fun words32 :: "u8 list \<Rightarrow> u32 list" where
  "words32 (a # b # c # d # bs) =
     (ucast a OR push_bit 8 (ucast b) OR push_bit 16 (ucast c) OR push_bit 24 (ucast d))
       # words32 bs"
| "words32 bs = []"

text \<open>
  \<open>save_state\<close> of this variant: \<open>opens\<close> says whether \<open>fopen\<close> succeeds, \<open>room\<close>
  is the number of bytes the file can take, \<open>old\<close> the file before the call. The
  \<open>fwrite\<close> that does not fit makes the function return \<open>false\<close>, with the file cut
  where the room ended.
\<close>

definition save_state_globals ::
    "bool \<Rightarrow> nat \<Rightarrow> u8 list option \<Rightarrow> Machine \<Rightarrow> bool \<times> u8 list option" where
  "save_state_globals opens room old s =
     (if \<not> opens then (False, old)
      else
        let bytes = ram s @ map bool_byte (display s) @ concat (map le32 (pixel_color s))
              @ concat (map le16 (stack s)) @ V s @ le16 (I s) @ le16 (PC s)
              @ [delay_timer s] @ [sound_timer s] @ map bool_byte (keypad s)
        in if room < length bytes then (False, Some (take room bytes))
           else (True, Some bytes))"

text \<open>
  \<^verbatim>\<open>fread(object, nbytes, 1, file)\<close> on the rest of a file: with \<open>nbytes\<close> bytes left it
  delivers them and succeeds. With fewer it fails, having stored the bytes there were
  over the front of the object, whose other bytes stay as they were.
\<close>

definition fread :: "nat \<Rightarrow> u8 list \<Rightarrow> u8 list \<Rightarrow> bool \<times> u8 list \<times> u8 list" where
  "fread nbytes object file =
     (if nbytes \<le> length file then (True, take nbytes file, drop nbytes file)
      else (False, file @ drop (length file) object, []))"

text \<open>
  One operand of the chain \<^verbatim>\<open>fread(..) != 1 || fread(..) != 1 || ..\<close>: read \<open>nbytes\<close>
  bytes over the variable whose bytes are \<open>bytes_of s\<close>, store what came with
  \<open>store\<close>, and go on with the later operands only after a full read. A short read
  ends the chain: \<open>load_state\<close> returns \<open>false\<close> and the variables read so far keep
  what was read into them.
\<close>

definition read_var ::
    "nat \<Rightarrow> (Machine \<Rightarrow> u8 list) \<Rightarrow> (u8 list \<Rightarrow> Machine \<Rightarrow> Machine) \<Rightarrow>
     (u8 list \<Rightarrow> Machine \<Rightarrow> bool \<times> Machine) \<Rightarrow> u8 list \<Rightarrow> Machine \<Rightarrow> bool \<times> Machine" where
  "read_var nbytes bytes_of store later file s =
     (case fread nbytes (bytes_of s) file of
        (ok, bytes, rest) \<Rightarrow>
          if ok then later rest (store bytes s) else (False, store bytes s))"

text \<open>
  \<open>load_state\<close> of this variant. After the last full read it sets
  \<^verbatim>\<open>stack_ptr = stack\<close>, the address of the first slot, and returns \<open>true\<close>. \<open>draw\<close>,
  \<open>state\<close> and \<open>rom_name\<close> are neither written by \<open>save_state\<close> nor read here.
\<close>

definition load_state_globals :: "u8 list option \<Rightarrow> Machine \<Rightarrow> bool \<times> Machine" where
  "load_state_globals file s =
     (case file of
        None \<Rightarrow> (False, s)
      | Some bytes \<Rightarrow>
          read_var 4096 ram (\<lambda>b s. s\<lparr>ram := b\<rparr>)
         (read_var 2048 (\<lambda>s. map bool_byte (display s)) (\<lambda>b s. s\<lparr>display := map byte_bool b\<rparr>)
         (read_var 8192 (\<lambda>s. concat (map le32 (pixel_color s))) (\<lambda>b s. s\<lparr>pixel_color := words32 b\<rparr>)
         (read_var 24 (\<lambda>s. concat (map le16 (stack s))) (\<lambda>b s. s\<lparr>stack := words16 b\<rparr>)
         (read_var 16 V (\<lambda>b s. s\<lparr>V := b\<rparr>)
         (read_var 2 (\<lambda>s. le16 (I s)) (\<lambda>b s. s\<lparr>I := hd (words16 b)\<rparr>)
         (read_var 2 (\<lambda>s. le16 (PC s)) (\<lambda>b s. s\<lparr>PC := hd (words16 b)\<rparr>)
         (read_var 1 (\<lambda>s. [delay_timer s]) (\<lambda>b s. s\<lparr>delay_timer := hd b\<rparr>)
         (read_var 1 (\<lambda>s. [sound_timer s]) (\<lambda>b s. s\<lparr>sound_timer := hd b\<rparr>)
         (read_var 16 (\<lambda>s. map bool_byte (keypad s)) (\<lambda>b s. s\<lparr>keypad := map byte_bool b\<rparr>)
         (\<lambda>rest s. (True, s\<lparr>stack_ptr := Ptr (location s) 0\<rparr>)))))))))))
            bytes s)"

section \<open>The variant \<^verbatim>\<open>my_chip8.c\<close>\<close>

text \<open>
  \<^verbatim>\<open>my_chip8.c\<close> is an earlier interpreter with its own struct \<^verbatim>\<open>CHIP8_t\<close>. Fields
  whose names the record above already uses carry a prime. The static locals of its
  \<open>FX0A\<close> case are \<open>any_key_pressed\<close> and \<open>key_p\<close>.
\<close>

record Config_t =
  window_width :: u32
  window_height :: u32
  foreground_color :: u32
  background_color :: u32
  scale :: u32
  speed :: u32

record Instruction_t =
  inst_opcode :: u16
  inst_NNN :: u16
  inst_NN :: u8
  inst_N :: u8
  inst_X :: u8
  inst_Y :: u8

record CHIP8_t =
  state' :: EmulatorState
  memory :: "u8 list"
  display' :: "bool list"
  pixel_color' :: "u32 list"
  stack' :: "u16 list"
  stack_ptr' :: nat
  V' :: "u8 list"
  I' :: u16
  PC' :: u16
  delay_timer' :: u8
  sound_timer' :: u8
  key' :: "bool list"
  rom :: string
  inst :: Instruction_t
  extension :: Chip8Extension

record Machine' = CHIP8_t +
  any_key_pressed' :: bool
  key_p :: u8

definition sized' :: "Machine' \<Rightarrow> bool" where
  "sized' s \<longleftrightarrow>
     length (memory s) = 4096 \<and> length (display' s) = 64 * 32 \<and>
     length (pixel_color' s) = 64 * 32 \<and> length (stack' s) = 12 \<and>
     length (V' s) = 16 \<and> length (key' s) = 16"

definition set_CONFIG :: Config_t where
  "set_CONFIG = \<lparr>window_width = 64, window_height = 32, foreground_color = 0xFFFFFFFF,
     background_color = 0x00000000, scale = 10, speed = 500\<rparr>"

definition fontset :: "u8 list" where
  "fontset =
    [0xF0, 0x90, 0x90, 0x90, 0xF0,
     0x20, 0x60, 0x20, 0x20, 0x70,
     0xF0, 0x10, 0xF0, 0x80, 0xF0,
     0xF0, 0x10, 0xF0, 0x10, 0xF0,
     0x90, 0x90, 0xF0, 0x10, 0x10,
     0xF0, 0x80, 0xF0, 0x10, 0xF0,
     0xF0, 0x80, 0xF0, 0x90, 0xF0,
     0xF0, 0x10, 0x20, 0x40, 0x40,
     0xF0, 0x90, 0xF0, 0x90, 0xF0,
     0xF0, 0x90, 0xF0, 0x10, 0xF0,
     0xF0, 0x90, 0xF0, 0x90, 0x90,
     0xE0, 0x90, 0xE0, 0x90, 0xF0,
     0xF0, 0x80, 0x80, 0x80, 0xF0,
     0xF0, 0x80, 0xF0, 0x90, 0xF0,
     0xF0, 0x80, 0xF0, 0x80, 0x80,
     0xF0, 0x90, 0xF0, 0x80, 0x80]"

text \<open>
  \<open>init_CHIP8\<close> copies the font and the ROM into the memory it is given and sets
  \<open>state\<close>, \<open>PC\<close>, \<open>rom\<close> and \<open>stack_ptr\<close>; it clears nothing. It fails when the
  file cannot be opened or is larger than \<open>4096 - 0x200\<close> bytes.
\<close>

definition init_CHIP8 :: "u8 list option \<Rightarrow> string \<Rightarrow> Machine' \<Rightarrow> Machine' option" where
  "init_CHIP8 rom_file name chip8 =
     (case rom_file of
        None \<Rightarrow> None
      | Some bytes \<Rightarrow>
          let rom_size = length bytes;
              max_rom_size = 4096 - 0x200
          in if rom_size > max_rom_size then None
             else Some (chip8\<lparr>
               state' := RUNNING,
               memory := fontset @ take (0x200 - length fontset) (drop (length fontset) (memory chip8))
                           @ bytes @ drop (0x200 + rom_size) (memory chip8),
               stack_ptr' := 0,
               PC' := 0x200,
               rom := name\<rparr>))"

text \<open>\<^verbatim>\<open>CHIP8_t chip8 = {0}\<close> in \<open>main\<close>, and the static locals at their initialisers.\<close>

definition zeroed' :: Machine' where
  "zeroed' = \<lparr>state' = QUIT, memory = replicate 4096 0, display' = replicate (64 * 32) False,
     pixel_color' = replicate (64 * 32) 0, stack' = replicate 12 0, stack_ptr' = 0,
     V' = replicate 16 0, I' = 0, PC' = 0, delay_timer' = 0, sound_timer' = 0,
     key' = replicate 16 False, rom = [],
     inst = \<lparr>inst_opcode = 0, inst_NNN = 0, inst_NN = 0, inst_N = 0, inst_X = 0, inst_Y = 0\<rparr>,
     extension = CHIP8, any_key_pressed' = False, key_p = 0xFF\<rparr>"

definition boot' :: "u8 list \<Rightarrow> Machine'" where
  "boot' bytes = the (init_CHIP8 (Some bytes) ''rom.ch8'' zeroed')"

definition memory_read :: "nat \<Rightarrow> Machine' \<Rightarrow> fault + u8" where
  "memory_read a s = (if a < 4096 then Inr (memory s ! a) else Inl RamOutOfBounds)"

definition memory_write :: "nat \<Rightarrow> u8 \<Rightarrow> Machine' \<Rightarrow> fault + Machine'" where
  "memory_write a v s =
     (if a < 4096 then Inr (s\<lparr>memory := (memory s)[a := v]\<rparr>) else Inl RamOutOfBounds)"

definition key_read :: "nat \<Rightarrow> Machine' \<Rightarrow> fault + bool" where
  "key_read k s = (if k < 16 then Inr (key' s ! k) else Inl KeypadOutOfBounds)"

definition fetch' :: "Machine' \<Rightarrow> fault + u16" where
  "fetch' s =
     (case memory_read (unat (PC' s)) s of
        Inl e \<Rightarrow> Inl e
      | Inr hi \<Rightarrow>
          (case memory_read (unat (PC' s) + 1) s of
             Inl e \<Rightarrow> Inl e
           | Inr lo \<Rightarrow> Inr (push_bit 8 (ucast hi) OR ucast lo)))"

text \<open>The assignments to \<^verbatim>\<open>chip8->inst\<close> that follow the fetch.\<close>

definition decode :: "u16 \<Rightarrow> Instruction_t" where
  "decode opcode =
     \<lparr>inst_opcode = opcode, inst_NNN = opcode AND 0x0FFF,
      inst_NN = ucast (opcode AND 0x0FF), inst_N = ucast (opcode AND 0x0F),
      inst_X = ucast (drop_bit 8 opcode AND 0x0F),
      inst_Y = ucast (drop_bit 4 opcode AND 0x0F)\<rparr>"

definition execute_0 :: "Machine' \<Rightarrow> fault + Machine'" where
  "execute_0 s =
     (if inst_NN (inst s) = 0xE0 then Inr (s\<lparr>display' := replicate (64 * 32) False\<rparr>)
      else if inst_NN (inst s) = 0xEE then
        (if stack_ptr' s = 0 \<or> stack_ptr' s > 12 then Inl StackOutOfBounds
         else Inr (s\<lparr>stack_ptr' := stack_ptr' s - 1, PC' := stack' s ! (stack_ptr' s - 1)\<rparr>))
      else Inr s)"

definition execute_2 :: "Machine' \<Rightarrow> fault + Machine'" where
  "execute_2 s =
     (if stack_ptr' s \<ge> 12 then Inl StackOutOfBounds
      else Inr (s\<lparr>stack' := (stack' s)[stack_ptr' s := PC' s],
                  stack_ptr' := stack_ptr' s + 1, PC' := inst_NNN (inst s)\<rparr>))"

text \<open>
  Class 8 of \<^verbatim>\<open>my_chip8.c\<close>. Cases 4, 5, 6, 7 and E write \<open>V[0xF]\<close> first and
  \<open>V[X]\<close> afterwards, from the registers as they are then; there is no test of the
  extension.
\<close>

definition execute_8 :: "Machine' \<Rightarrow> Machine'" where
  "execute_8 s =
     (let N = inst_N (inst s); X = unat (inst_X (inst s)); Y = unat (inst_Y (inst s))
      in if N = 0 then s\<lparr>V' := (V' s)[X := V' s ! X + V' s ! Y]\<rparr>
         else if N = 1 then s\<lparr>V' := (V' s)[X := V' s ! X OR V' s ! Y]\<rparr>
         else if N = 2 then s\<lparr>V' := (V' s)[X := V' s ! X AND V' s ! Y]\<rparr>
         else if N = 3 then s\<lparr>V' := (V' s)[X := V' s ! X XOR V' s ! Y]\<rparr>
         else if N = 4 then
           (let s1 = (if (ucast (V' s ! X) + ucast (V' s ! Y) :: u16) > 255
                      then s\<lparr>V' := (V' s)[0xF := 1]\<rparr> else s)
            in s1\<lparr>V' := (V' s1)[X := V' s1 ! X + V' s1 ! Y]\<rparr>)
         else if N = 5 then
           (let s1 = (if V' s ! X < V' s ! Y
                      then s\<lparr>V' := (V' s)[0xF := 0]\<rparr> else s\<lparr>V' := (V' s)[0xF := 1]\<rparr>)
            in s1\<lparr>V' := (V' s1)[X := V' s1 ! X - V' s1 ! Y]\<rparr>)
         else if N = 6 then
           (let s1 = s\<lparr>V' := (V' s)[0xF := V' s ! X AND 0x1]\<rparr>
            in s1\<lparr>V' := (V' s1)[X := drop_bit 1 (V' s1 ! X)]\<rparr>)
         else if N = 7 then
           (let s1 = (if V' s ! Y < V' s ! X
                      then s\<lparr>V' := (V' s)[0xF := 0]\<rparr> else s\<lparr>V' := (V' s)[0xF := 1]\<rparr>)
            in s1\<lparr>V' := (V' s1)[X := V' s1 ! Y - V' s1 ! X]\<rparr>)
         else if N = 0xE then
           (let s1 = s\<lparr>V' := (V' s)[0xF := drop_bit 7 (V' s ! X AND 0x80)]\<rparr>
            in s1\<lparr>V' := (V' s1)[X := push_bit 1 (V' s1 ! X)]\<rparr>)
         else s)"

text \<open>
  Class D of \<^verbatim>\<open>my_chip8.c\<close> takes the screen size from \<open>config\<close>, a pair of
  \<^verbatim>\<open>uint32_t\<close>; the coordinates are \<^verbatim>\<open>uint8_t\<close>, and the index into \<open>display\<close> is
  computed in 32 bits. \<open>N\<close> is \<^verbatim>\<open>chip8->inst.N\<close>, which the loop does not change.
\<close>

fun draw_bits' :: "Config_t \<Rightarrow> u8 \<Rightarrow> nat \<Rightarrow> u8 \<Rightarrow> u8 \<Rightarrow> Machine' \<Rightarrow> fault + Machine'" where
  "draw_bits' config sprite_data 0 X_coord Y_coord s = Inr s"
| "draw_bits' config sprite_data (Suc j) X_coord Y_coord s =
     (let p = unat (ucast Y_coord * window_width config + ucast X_coord)
      in if p \<ge> 64 * 32 then Inl DisplayOutOfBounds
         else
           (let pixel = display' s ! p;
                sprite_bit = (sprite_data AND push_bit j 1 \<noteq> 0);
                s1 = (if sprite_bit \<and> pixel then s\<lparr>V' := (V' s)[0xF := 1]\<rparr> else s);
                s2 = s1\<lparr>display' := (display' s1)[p := (pixel \<noteq> sprite_bit)]\<rparr>
            in if (ucast (X_coord + 1) :: u32) \<ge> window_width config then Inr s2
               else draw_bits' config sprite_data j (X_coord + 1) Y_coord s2))"

function draw_rows' :: "Config_t \<Rightarrow> nat \<Rightarrow> nat \<Rightarrow> u8 \<Rightarrow> u8 \<Rightarrow> Machine' \<Rightarrow> fault + Machine'" where
  "draw_rows' config i N orig_X Y_coord s =
     (if i < N then
        (case memory_read (unat (I' s) + i) s of
           Inl e \<Rightarrow> Inl e
         | Inr sprite_data \<Rightarrow>
             (case draw_bits' config sprite_data 8 orig_X Y_coord s of
                Inl e \<Rightarrow> Inl e
              | Inr s1 \<Rightarrow>
                  if (ucast (Y_coord + 1) :: u32) \<ge> window_height config then Inr s1
                  else draw_rows' config (i + 1) N orig_X (Y_coord + 1) s1))
      else Inr s)"
  by pat_completeness auto
termination
  by (relation "measure (\<lambda>(config, i, N, orig_X, Y_coord, s). N - i)") auto

declare draw_rows'.simps [simp del]

definition execute_D :: "Config_t \<Rightarrow> Machine' \<Rightarrow> fault + Machine'" where
  "execute_D config s =
     (if window_width config = 0 \<or> window_height config = 0 then Inl DivisionByZero
      else
        (let X_coord = (ucast (ucast (V' s ! unat (inst_X (inst s))) mod window_width config) :: u8);
             Y_coord = (ucast (ucast (V' s ! unat (inst_Y (inst s))) mod window_height config) :: u8);
             orig_X = X_coord;
             s1 = s\<lparr>V' := (V' s)[0xF := 0]\<rparr>
         in draw_rows' config 0 (unat (inst_N (inst s))) orig_X Y_coord s1))"

definition execute_E :: "Machine' \<Rightarrow> fault + Machine'" where
  "execute_E s =
     (if inst_NN (inst s) = 0x9E then
        (case key_read (unat (V' s ! unat (inst_X (inst s)))) s of
           Inl e \<Rightarrow> Inl e
         | Inr pressed \<Rightarrow> Inr (if pressed then s\<lparr>PC' := PC' s + 2\<rparr> else s))
      else if inst_NN (inst s) = 0xA1 then
        (case key_read (unat (V' s ! unat (inst_X (inst s)))) s of
           Inl e \<Rightarrow> Inl e
         | Inr pressed \<Rightarrow> Inr (if \<not> pressed then s\<lparr>PC' := PC' s + 2\<rparr> else s))
      else Inr s)"

function scan_key :: "nat \<Rightarrow> Machine' \<Rightarrow> Machine'" where
  "scan_key i s =
     (if key_p s = 0xFF \<and> i < 16 then
        (if key' s ! i then s\<lparr>key_p := word_of_nat i, any_key_pressed' := True\<rparr>
         else scan_key (i + 1) s)
      else s)"
  by pat_completeness auto
termination
  by (relation "measure (\<lambda>(i, s). 16 - i)") auto

declare scan_key.simps [simp del]

definition execute_F0A :: "Machine' \<Rightarrow> fault + Machine'" where
  "execute_F0A s =
     (let s1 = scan_key 0 s
      in if \<not> any_key_pressed' s1 then Inr (s1\<lparr>PC' := PC' s1 - 2\<rparr>)
         else
           (case key_read (unat (key_p s1)) s1 of
              Inl e \<Rightarrow> Inl e
            | Inr pressed \<Rightarrow>
                if pressed then Inr (s1\<lparr>PC' := PC' s1 - 2\<rparr>)
                else Inr (s1\<lparr>V' := (V' s1)[unat (inst_X (inst s1)) := key_p s1],
                              key_p := 0xFF, any_key_pressed' := False\<rparr>)))"

definition execute_F33 :: "Machine' \<Rightarrow> fault + Machine'" where
  "execute_F33 s =
     (let bcd = V' s ! unat (inst_X (inst s))
      in case memory_write (unat (I' s) + 2) (bcd mod 10) s of
           Inl e \<Rightarrow> Inl e
         | Inr s1 \<Rightarrow>
             (let bcd1 = bcd div 10
              in case memory_write (unat (I' s1) + 1) (bcd1 mod 10) s1 of
                   Inl e \<Rightarrow> Inl e
                 | Inr s2 \<Rightarrow> memory_write (unat (I' s2)) (bcd1 div 10) s2))"

text \<open>
  \<open>FX55\<close> and \<open>FX65\<close> of \<^verbatim>\<open>my_chip8.c\<close> are one \<open>memcpy\<close> of \<^verbatim>\<open>sizeof(chip8->V)\<close>,
  16 bytes, whatever \<open>X\<close> is; \<open>I\<close> is not changed.
\<close>

definition execute_F55 :: "Machine' \<Rightarrow> fault + Machine'" where
  "execute_F55 s =
     (if unat (I' s) + 16 > 4096 then Inl RamOutOfBounds
      else Inr (s\<lparr>memory := take (unat (I' s)) (memory s) @ take 16 (V' s)
                               @ drop (unat (I' s) + 16) (memory s)\<rparr>))"

definition execute_F65 :: "Machine' \<Rightarrow> fault + Machine'" where
  "execute_F65 s =
     (if unat (I' s) + 16 > 4096 then Inl RamOutOfBounds
      else Inr (s\<lparr>V' := take 16 (drop (unat (I' s)) (memory s))\<rparr>))"

definition execute_F :: "Machine' \<Rightarrow> fault + Machine'" where
  "execute_F s =
     (let NN = inst_NN (inst s); X = unat (inst_X (inst s))
      in if NN = 0x0A then execute_F0A s
         else if NN = 0x15 then Inr (s\<lparr>delay_timer' := V' s ! X\<rparr>)
         else if NN = 0x07 then Inr (s\<lparr>V' := (V' s)[X := delay_timer' s]\<rparr>)
         else if NN = 0x18 then Inr (s\<lparr>sound_timer' := V' s ! X\<rparr>)
         else if NN = 0x1E then Inr (s\<lparr>I' := I' s + ucast (V' s ! X)\<rparr>)
         else if NN = 0x29 then Inr (s\<lparr>I' := ucast (V' s ! X) * 5\<rparr>)
         else if NN = 0x33 then execute_F33 s
         else if NN = 0x55 then execute_F55 s
         else if NN = 0x65 then execute_F65 s
         else Inr s)"

definition execute_instruction :: "Config_t \<Rightarrow> nat \<Rightarrow> Machine' \<Rightarrow> fault + Machine'" where
  "execute_instruction config rnd chip8 =
     (case fetch' chip8 of
        Inl e \<Rightarrow> Inl e
      | Inr opcode \<Rightarrow>
          (let s = chip8\<lparr>PC' := PC' chip8 + 2, inst := decode opcode\<rparr>;
               NNN = inst_NNN (inst s); NN = inst_NN (inst s); N = inst_N (inst s);
               X = unat (inst_X (inst s)); Y = unat (inst_Y (inst s));
               c = drop_bit 12 (inst_opcode (inst s)) AND 0x0F
           in if c = 0x00 then execute_0 s
              else if c = 0x01 then Inr (s\<lparr>PC' := NNN\<rparr>)
              else if c = 0x02 then execute_2 s
              else if c = 0x03 then Inr (if V' s ! X = NN then s\<lparr>PC' := PC' s + 2\<rparr> else s)
              else if c = 0x04 then Inr (if V' s ! X \<noteq> NN then s\<lparr>PC' := PC' s + 2\<rparr> else s)
              else if c = 0x05 then
                Inr (if N \<noteq> 0 then s
                     else if V' s ! X = V' s ! Y then s\<lparr>PC' := PC' s + 2\<rparr> else s)
              else if c = 0x06 then Inr (s\<lparr>V' := (V' s)[X := NN]\<rparr>)
              else if c = 0x07 then Inr (s\<lparr>V' := (V' s)[X := V' s ! X + NN]\<rparr>)
              else if c = 0x08 then Inr (execute_8 s)
              else if c = 0x09 then
                Inr (if N \<noteq> 0 then s
                     else if V' s ! X \<noteq> V' s ! Y then s\<lparr>PC' := PC' s + 2\<rparr> else s)
              else if c = 0x0A then Inr (s\<lparr>I' := NNN\<rparr>)
              else if c = 0x0B then Inr (s\<lparr>PC' := NNN + ucast (V' s ! 0)\<rparr>)
              else if c = 0x0C then
                Inr (s\<lparr>V' := (V' s)[X := word_of_nat (rnd mod 256) AND NN]\<rparr>)
              else if c = 0x0D then execute_D config s
              else if c = 0x0E then execute_E s
              else if c = 0x0F then execute_F s
              else Inr s))"

fun run' :: "Config_t \<Rightarrow> nat list \<Rightarrow> Machine' \<Rightarrow> fault + Machine'" where
  "run' config [] s = Inr s"
| "run' config (rnd # rnds) s =
     (case execute_instruction config rnd s of
        Inl e \<Rightarrow> Inl e
      | Inr s1 \<Rightarrow> run' config rnds s1)"

text \<open>\<open>update_timers\<close> of \<^verbatim>\<open>my_chip8.c\<close>; its \<open>SDL\<close> argument is unused.\<close>

definition update_timers' :: "Machine' \<Rightarrow> Machine'" where
  "update_timers' chip8 =
     (if delay_timer' chip8 > 0 then chip8\<lparr>delay_timer' := delay_timer' chip8 - 1\<rparr>
      else chip8)"

text \<open>
  A machine stopped at \<open>F00A\<close> through one press and release of the key \<open>w\<close>, which
  stands for key 5 of the keypad: \<open>pressed\<close> after the key went down, \<open>captured\<close>
  with the key recorded by the static locals, \<open>held\<close> after the key went up.
\<close>

definition pressed :: Machine where
  "pressed = handle_input [SDL_KEYDOWN SDLK_w] (boot [0xF0, 0x0A])"

definition captured :: Machine where
  "captured = pressed\<lparr>key := 5, any_key_pressed := True\<rparr>"

definition held :: Machine where
  "held = handle_input [SDL_KEYUP SDLK_w] captured"

text \<open>
  A machine whose program sets \<open>I\<close> to \<open>0xFFF\<close> with \<open>AFFF\<close> and draws two rows at
  the top left corner with \<open>D012\<close>.
\<close>

definition edge_example :: Machine where
  "edge_example = boot [0xAF, 0xFF, 0xD0, 0x12]"

text \<open>
  Machines stopped at one instruction, with the registers it uses: \<open>8F04\<close> and \<open>8014\<close>
  (add), \<open>8F06\<close> and \<open>8016\<close> (shift right), \<open>E09E\<close> and \<open>E0A1\<close> (key tests),
  \<open>F018\<close> (set the sound timer).
\<close>

definition add_to_vf :: Machine where
  "add_to_vf = (boot [0x8F, 0x04])\<lparr>V := (replicate 16 0)[0 := 1, 0xF := 1]\<rparr>"

definition add_example :: Machine where
  "add_example = (boot [0x80, 0x14])\<lparr>V := (replicate 16 0)[0 := 200, 1 := 100]\<rparr>"

definition add_example' :: Machine' where
  "add_example' = (boot' [0x80, 0x14])\<lparr>V' := (replicate 16 0)[0 := 200, 1 := 100]\<rparr>"

definition shift_to_vf :: Machine where
  "shift_to_vf = (boot [0x8F, 0x06])\<lparr>V := (replicate 16 0)[0 := 2]\<rparr>"

definition shift_example :: Machine where
  "shift_example = (boot [0x80, 0x16])\<lparr>V := (replicate 16 0)[0 := 6, 1 := 5]\<rparr>"

definition shift_example' :: Machine' where
  "shift_example' = (boot' [0x80, 0x16])\<lparr>V' := (replicate 16 0)[0 := 6, 1 := 5]\<rparr>"

definition key_example :: Machine where
  "key_example = (boot [0xE0, 0x9E])\<lparr>V := (replicate 16 0)[0 := 0x10]\<rparr>"

definition key_example' :: Machine' where
  "key_example' = (boot' [0xE0, 0xA1])\<lparr>V' := (replicate 16 0)[0 := 0x10]\<rparr>"

definition tone_example' :: Machine' where
  "tone_example' = (boot' [0xF0, 0x18])\<lparr>V' := (replicate 16 0)[0 := 5]\<rparr>"

text \<open>
  The sprite of \<open>DXYN\<close>, cell by cell: the cell in column \<open>x\<close> and row \<open>y\<close> is covered
  by a set bit when the sprite, placed with its top left corner at \<open>(x0, y0)\<close>, has
  row \<open>y - y0\<close> among its \<open>N\<close> rows and column \<open>x - x0\<close> among its 8 columns, and
  bit \<open>7 - (x - x0)\<close> of the byte \<open>ram[I + (y - y0)]\<close> is set.
\<close>

definition sprite_cell :: "Machine \<Rightarrow> nat \<Rightarrow> nat \<Rightarrow> nat \<Rightarrow> nat \<Rightarrow> nat \<Rightarrow> bool" where
  "sprite_cell s N x0 y0 x y \<longleftrightarrow>
     y0 \<le> y \<and> y - y0 < N \<and> x0 \<le> x \<and> x - x0 < 8 \<and>
     bit (ram s ! (unat (I s) + (y - y0))) (7 - (x - x0))"

text \<open>
  The same for the loops in progress: \<open>row_pixel\<close> for the \<open>k\<close> low bits of a row
  still to be drawn from column \<open>X_coord\<close> on, \<open>sprite_pixel\<close> for the rows from
  \<open>i\<close> on, drawn from row \<open>y0\<close> on.
\<close>

definition row_pixel :: "u8 \<Rightarrow> nat \<Rightarrow> nat \<Rightarrow> nat \<Rightarrow> bool" where
  "row_pixel sprite_data k X_coord x \<longleftrightarrow>
     X_coord \<le> x \<and> x - X_coord < k \<and> bit sprite_data (k - 1 - (x - X_coord))"

definition sprite_pixel :: "Machine \<Rightarrow> nat \<Rightarrow> nat \<Rightarrow> nat \<Rightarrow> nat \<Rightarrow> nat \<Rightarrow> nat \<Rightarrow> bool" where
  "sprite_pixel s i N x0 y0 x y \<longleftrightarrow>
     y0 \<le> y \<and> i + (y - y0) < N \<and>
     row_pixel (ram s ! (unat (I s) + i + (y - y0))) 8 x0 x"

text \<open>A machine stopped at \<open>D015\<close>, about to draw the glyph at address 0.\<close>

definition glyph_example :: Machine where
  "glyph_example = boot [0xD0, 0x15]"

text \<open>
  The machine \<open>held\<close> after one more call, which stores the key; a machine stopped at
  \<open>1FFF\<close>; a \<^verbatim>\<open>my_chip8.c\<close> machine stopped at \<open>F055\<close> with \<open>V0 = 1\<close>, \<open>V1 = 7\<close>
  and \<open>I = 0x300\<close>.
\<close>

definition released :: Machine where
  "released = held\<lparr>PC := 0x202, V := (V held)[0 := 5], key := 0xFF, any_key_pressed := False\<rparr>"

definition jump_example :: Machine where
  "jump_example = boot [0x1F, 0xFF]"

definition store_example' :: Machine' where
  "store_example' =
     (boot' [0xF0, 0x55])\<lparr>V' := (replicate 16 0)[0 := 1, 1 := 7], I' := 0x300\<rparr>"

section \<open>Facts about construction\<close>

lemma boot_eq:
  "bytes \<noteq> [] \<Longrightarrow> length bytes \<le> 3584 \<Longrightarrow>
   boot bytes = zeroed\<lparr>state := RUNNING,
      ram := font @ replicate 432 0 @ bytes @ replicate (3584 - length bytes) 0,
      display := replicate 2048 False, pixel_color := replicate 2048 0xFFFFFFFF,
      stack := replicate 12 0, stack_ptr := Ptr 0 0, V := replicate 16 0, I := 0,
      PC := 0x200, delay_timer := 0, sound_timer := 0, keypad := replicate 16 False,
      rom_name := argv1, draw := False\<rparr>"
  by (simp add: boot_def init_chip8_def Let_def font_def BG_COLOR_def zeroed_def)

lemma sized_boot: "bytes \<noteq> [] \<Longrightarrow> length bytes \<le> 3584 \<Longrightarrow> sized (boot bytes)"
  by (simp add: boot_eq sized_def font_def zeroed_def)

lemma fetch_boot:
  "length rest \<le> 3582 \<Longrightarrow> fetch (boot (a # b # rest)) = Inr (push_bit 8 (ucast a) OR ucast b)"
  by (simp add: boot_eq fetch_def ram_read_def nth_append font_def zeroed_def)

lemma boot_idle: "bytes \<noteq> [] \<Longrightarrow> length bytes \<le> 3584 \<Longrightarrow>
   (\<forall>k<16. \<not> keypad (boot bytes) ! k) \<and> \<not> any_key_pressed (boot bytes)"
  by (simp add: boot_eq zeroed_def)

lemma boot'_eq:
  "length bytes \<le> 3584 \<Longrightarrow>
   boot' bytes = zeroed'\<lparr>state' := RUNNING,
      memory := fontset @ replicate 432 0 @ bytes @ replicate (3584 - length bytes) 0,
      stack_ptr' := 0, PC' := 0x200, rom := ''rom.ch8''\<rparr>"
  by (simp add: boot'_def init_CHIP8_def Let_def fontset_def zeroed'_def)

lemma sized_boot': "length bytes \<le> 3584 \<Longrightarrow> sized' (boot' bytes)"
  by (simp add: boot'_eq sized'_def fontset_def zeroed'_def)

lemma fetch_boot':
  "length rest \<le> 3582 \<Longrightarrow> fetch' (boot' (a # b # rest)) = Inr (push_bit 8 (ucast a) OR ucast b)"
  by (simp add: boot'_eq fetch'_def memory_read_def nth_append fontset_def zeroed'_def)


lemma fetch_upd_V [simp]: "fetch (s\<lparr>V := v\<rparr>) = fetch s"
  by (simp add: fetch_def ram_read_def)

lemma fetch'_upd_V [simp]: "fetch' (s\<lparr>V' := v\<rparr>) = fetch' s"
  by (simp add: fetch'_def memory_read_def)

lemma sized_upd_V: "sized s \<Longrightarrow> length v = 16 \<Longrightarrow> sized (s\<lparr>V := v\<rparr>)"
  by (simp add: sized_def)

lemma sized'_upd_V: "sized' s \<Longrightarrow> length v = 16 \<Longrightarrow> sized' (s\<lparr>V' := v\<rparr>)"
  by (simp add: sized'_def)


section \<open>Decoding\<close>

lemma op_X_lt: "op_X opcode < 16"
proof -
  have "drop_bit 8 opcode AND 0xF \<le> (0xF :: u16)" by (rule word_and_le1)
  then show ?thesis by (simp add: op_X_def word_le_nat_alt)
qed

lemma op_Y_lt: "op_Y opcode < 16"
proof -
  have "drop_bit 4 opcode AND 0xF \<le> (0xF :: u16)" by (rule word_and_le1)
  then show ?thesis by (simp add: op_Y_def word_le_nat_alt)
qed

lemma nibble_ucast: "unat (ucast (w AND 0xF :: u16) :: u8) = unat (w AND 0xF)"
proof -
  have "w AND 0xF \<le> (0xF :: u16)" by (rule word_and_le1)
  then have "unat (w AND 0xF) < 256" by (simp add: word_le_nat_alt)
  then show ?thesis by (simp add: unsigned_ucast_eq take_bit_nat_eq_self)
qed

lemma decode_X: "unat (inst_X (decode opcode)) = op_X opcode"
  by (simp add: decode_def op_X_def nibble_ucast)

lemma decode_Y: "unat (inst_Y (decode opcode)) = op_Y opcode"
  by (simp add: decode_def op_Y_def nibble_ucast)

lemma decode_NN: "inst_NN (decode opcode) = op_NN opcode"
  by (simp add: decode_def op_NN_def)

lemma decode_N: "inst_N (decode opcode) = op_N opcode"
  by (simp add: decode_def op_N_def)

lemma decode_class: "drop_bit 12 (inst_opcode (decode opcode)) AND 0x0F = op_class opcode"
  by (simp add: decode_def op_class_def)

lemma carry_iff: "((ucast (a :: u8) + ucast (b :: u8) :: u16) > 255) \<longleftrightarrow> unat a + unat b > 255"
proof -
  have "unat a < 256" "unat b < 256" using unsigned_less [of a] unsigned_less [of b] by simp_all
  then have "unat (ucast a + ucast b :: u16) = unat a + unat b"
    by (simp add: unat_word_ariths unsigned_ucast_eq take_bit_nat_eq_self)
  then show ?thesis by (simp add: word_less_nat_alt)
qed

lemma unat_add8: "unat ((a :: u8) + b) = (unat a + unat b) mod 256"
  by (simp add: unat_word_ariths)


section \<open>The await-key instruction \<open>FX0A\<close>\<close>

lemma scan_none:
  "\<forall>k<16. i \<le> k \<longrightarrow> \<not> keypad s ! k \<Longrightarrow> scan_keypad i s = s"
proof (induction i s rule: scan_keypad.induct)
  case (1 i s)
  show ?case
  proof (cases "key s = 0xFF \<and> i < 16")
    case True
    with 1 show ?thesis by (subst scan_keypad.simps) auto
  next
    case False
    then show ?thesis by (subst scan_keypad.simps) auto
  qed
qed

lemma scan_cases:
  "scan_keypad i s = s \<or>
   (key s = 0xFF \<and> (\<exists>k<16. i \<le> k \<and> keypad s ! k \<and>
       scan_keypad i s = s\<lparr>key := word_of_nat k, any_key_pressed := True\<rparr>))"
proof (induction i s rule: scan_keypad.induct)
  case (1 i s)
  show ?case
  proof (cases "key s = 0xFF \<and> i < 16")
    case True
    note T = this
    show ?thesis
    proof (cases "keypad s ! i")
      case True
      with T show ?thesis by (subst (1 2) scan_keypad.simps) auto
    next
      case False
      with T 1 have "scan_keypad (i + 1) s = s \<or>
        (key s = 0xFF \<and> (\<exists>k<16. i + 1 \<le> k \<and> keypad s ! k \<and>
       scan_keypad (i + 1) s = s\<lparr>key := word_of_nat k, any_key_pressed := True\<rparr>))" by simp
      moreover have "scan_keypad i s = scan_keypad (i + 1) s"
        using T False by (subst scan_keypad.simps) simp
      ultimately show ?thesis by (metis add_leD1)
    qed
  next
    case False
    then show ?thesis by (subst scan_keypad.simps) auto
  qed
qed

lemma unat_key_of_nat: "k < 16 \<Longrightarrow> unat (word_of_nat k :: u8) = k"
  by (simp add: unat_of_nat)

text \<open>One call at an \<open>FX0A\<close> instruction.\<close>

lemma exec_F0A_idle:
  assumes "\<forall>k<16. \<not> keypad s ! k" and "\<not> any_key_pressed s"
  shows "exec_F0A X (s\<lparr>PC := PC s + 2\<rparr>) = Inr s"
proof -
  have "scan_keypad 0 (s\<lparr>PC := PC s + 2\<rparr>) = s\<lparr>PC := PC s + 2\<rparr>"
    using assms by (intro scan_none) simp
  then show ?thesis using assms by (simp add: exec_F0A_def Let_def)
qed

lemma exec_F0A_step:
  assumes "exec_F0A X s = Inr s'"
  shows "(if any_key_pressed s \<and> unat (key s) < 16 \<and> \<not> keypad s ! unat (key s)
          then s' = s\<lparr>V := (V s)[X := key s], key := 0xFF, any_key_pressed := False\<rparr>
          else PC s' = PC s - 2 \<and> V s' = V s)"
proof -
  from scan_cases [of 0 s]
  consider (same) "scan_keypad 0 s = s"
    | (cap) k where "key s = 0xFF" "k < 16" "keypad s ! k"
        "scan_keypad 0 s = s\<lparr>key := word_of_nat k, any_key_pressed := True\<rparr>"
    by auto
  then show ?thesis
  proof cases
    case same
    with assms show ?thesis
      by (auto simp: exec_F0A_def Let_def keypad_read_def split: if_splits)
  next
    case cap
    with assms show ?thesis
      by (auto simp: exec_F0A_def Let_def keypad_read_def unat_key_of_nat split: if_splits)
  qed
qed

lemma exec_F0A_capture:
  assumes "exec_F0A X s = Inr s'" and "\<not> any_key_pressed s" and "any_key_pressed s'"
  shows "\<exists>k<16. keypad s ! k \<and> key s' = word_of_nat k"
proof -
  from scan_cases [of 0 s]
  consider (same) "scan_keypad 0 s = s"
    | (cap) k where "key s = 0xFF" "k < 16" "keypad s ! k"
        "scan_keypad 0 s = s\<lparr>key := word_of_nat k, any_key_pressed := True\<rparr>"
    by auto
  then show ?thesis
  proof cases
    case same
    with assms show ?thesis
      by (auto simp: exec_F0A_def Let_def keypad_read_def split: if_splits)
  next
    case cap
    with assms show ?thesis
      by (auto simp: exec_F0A_def Let_def keypad_read_def unat_key_of_nat split: if_splits)
  qed
qed

lemma emulate_F0A:
  assumes "fetch s = Inr opcode" and "op_class opcode = 0xF" and "op_NN opcode = 0x0A"
  shows "emulate_instruction ext rnd s = exec_F0A (op_X opcode) (s\<lparr>PC := PC s + 2\<rparr>)"
  using assms by (simp add: emulate_instruction_def exec_opcode_def Let_def exec_F_def)

lemma scan_keypad_captured: "key s \<noteq> 0xFF \<Longrightarrow> scan_keypad i s = s"
  by (subst scan_keypad.simps) simp

lemma scan_first:
  assumes "key s = 0xFF" and "k < 16" and "keypad s ! k" and "\<forall>j<k. \<not> keypad s ! j"
    and "i \<le> k"
  shows "scan_keypad i s = s\<lparr>key := word_of_nat k, any_key_pressed := True\<rparr>"
  using assms
proof (induction i s rule: scan_keypad.induct)
  case (1 i s)
  show ?case
  proof (cases "i = k")
    case True
    with 1 show ?thesis by (subst scan_keypad.simps) simp
  next
    case False
    with 1 have lt: "i < k" by simp
    with 1 have n: "\<not> keypad s ! i" and b: "i < 16" by auto
    from 1 lt n b
    have "scan_keypad (i + 1) s = s\<lparr>key := word_of_nat k, any_key_pressed := True\<rparr>"
      by simp
    with 1 n b show ?thesis by (subst scan_keypad.simps) simp
  qed
qed

lemma exec_F0A_first:
  assumes "\<not> any_key_pressed s" and "key s = 0xFF" and "k < 16" and "keypad s ! k"
    and "\<forall>j<k. \<not> keypad s ! j"
  shows "exec_F0A X (s\<lparr>PC := PC s + 2\<rparr>) =
    Inr (s\<lparr>key := word_of_nat k, any_key_pressed := True\<rparr>)"
proof -
  have "scan_keypad 0 (s\<lparr>PC := PC s + 2\<rparr>) =
      s\<lparr>PC := PC s + 2\<rparr>\<lparr>key := word_of_nat k, any_key_pressed := True\<rparr>"
    using assms by (intro scan_first) simp_all
  then show ?thesis
    using assms by (simp add: exec_F0A_def Let_def keypad_read_def unat_key_of_nat)
qed

lemma key_captured: "unat (key s) < 16 \<Longrightarrow> key s \<noteq> 0xFF"
  by auto

lemma exec_F0A_held:
  assumes "any_key_pressed s" and "unat (key s) < 16" and "keypad s ! unat (key s)"
  shows "exec_F0A X (s\<lparr>PC := PC s + 2\<rparr>) = Inr s"
proof -
  have "scan_keypad 0 (s\<lparr>PC := PC s + 2\<rparr>) = s\<lparr>PC := PC s + 2\<rparr>"
    using key_captured [OF assms(2)] by (simp add: scan_keypad_captured)
  then show ?thesis
    using assms by (simp add: exec_F0A_def Let_def keypad_read_def)
qed

lemma exec_F0A_released:
  assumes "any_key_pressed s" and "unat (key s) < 16" and "\<not> keypad s ! unat (key s)"
  shows "exec_F0A X (s\<lparr>PC := PC s + 2\<rparr>) =
    Inr (s\<lparr>PC := PC s + 2, V := (V s)[X := key s], key := 0xFF, any_key_pressed := False\<rparr>)"
proof -
  have "scan_keypad 0 (s\<lparr>PC := PC s + 2\<rparr>) = s\<lparr>PC := PC s + 2\<rparr>"
    using key_captured [OF assms(2)] by (simp add: scan_keypad_captured)
  then show ?thesis
    using assms by (simp add: exec_F0A_def Let_def keypad_read_def)
qed

lemma fetch_upd_keypad: "fetch (s\<lparr>key := c, any_key_pressed := a, keypad := kp\<rparr>) = fetch s"
  by (simp add: fetch_def ram_read_def)

text \<open>The example machines, written out.\<close>

lemma pressed_eq:
  "pressed = (boot [0xF0, 0x0A])\<lparr>keypad := (replicate 16 False)[5 := True]\<rparr>"
  by (simp add: pressed_def boot_eq)

lemma held_eq: "held = (boot [0xF0, 0x0A])\<lparr>any_key_pressed := True, key := 5\<rparr>"
proof -
  have "((replicate 16 False)[5 := True])[5 := False] = replicate 16 False"
    by (simp add: list_update_same_conv)
  then show ?thesis
    by (simp add: held_def captured_def pressed_def boot_eq)
qed

lemma fetch_held: "fetch held = Inr 0xF00A"
  by (simp add: held_eq fetch_def ram_read_def boot_eq nth_append font_def zeroed_def)

lemma emulate_held: "emulate_instruction CHIP8 0 held = Inr released"
proof -
  have kp: "keypad held ! 5 = False" "PC held = 0x200"
    by (simp_all add: held_eq boot_eq)
  show ?thesis
    using fetch_held kp
    by (simp add: emulate_instruction_def exec_opcode_def op_class_def op_NN_def op_X_def
        op_N_def op_NNN_def op_Y_def exec_F_def exec_F0A_def Let_def keypad_read_def
        scan_keypad_captured released_def held_eq)
qed

text \<open>
  C7. At an \<open>FX0A\<close> instruction a call of \<open>emulate_instruction\<close> does one of four
  things.

  \<^item> With no key captured and no key pressed it returns the machine as it was, and so
    does any number of calls: the program counter stays on the instruction and no
    register changes.

  \<^item> With no key captured and some key pressed it records the lowest pressed key \<open>k\<close>
    in the static locals and changes nothing else: the program counter stays and
    \<open>V[X]\<close> is not yet written.

  \<^item> With a key captured and still pressed, any number of calls returns the machine
    as it was, the captured key the same.

  \<^item> With a key captured and no longer pressed it stores the captured key in \<open>V[X]\<close>,
    moves on to the next instruction and clears the static locals.

  So \<open>V[X]\<close> is written across two calls: one that sees key \<open>k\<close> pressed, and a later
  one, after the keypad has changed to one where \<open>k\<close> is up, that stores \<open>k\<close>. No
  call changes \<open>V\<close> or the program counter otherwise, and a key is captured only when
  the call sees it pressed.
\<close>

theorem await_key:
  assumes "fetch s = Inr opcode" and "op_class opcode = 0xF" and "op_NN opcode = 0x0A"
  shows "((\<forall>k<16. \<not> keypad s ! k) \<and> \<not> any_key_pressed s \<longrightarrow> run ext rnds s = Inr s) \<and>
    (\<not> any_key_pressed s \<and> key s = 0xFF \<and> k < 16 \<and> keypad s ! k \<and> (\<forall>j<k. \<not> keypad s ! j) \<longrightarrow>
       emulate_instruction ext rnd s = Inr (s\<lparr>key := word_of_nat k, any_key_pressed := True\<rparr>)) \<and>
    (any_key_pressed s \<and> unat (key s) < 16 \<and> keypad s ! unat (key s) \<longrightarrow>
       run ext rnds s = Inr s) \<and>
    (any_key_pressed s \<and> unat (key s) < 16 \<and> \<not> keypad s ! unat (key s) \<longrightarrow>
       emulate_instruction ext rnd s =
         Inr (s\<lparr>PC := PC s + 2, V := (V s)[op_X opcode := key s], key := 0xFF,
                any_key_pressed := False\<rparr>)) \<and>
    (\<not> any_key_pressed s \<and> key s = 0xFF \<and> k < 16 \<and> keypad s ! k \<and> (\<forall>j<k. \<not> keypad s ! j) \<and>
     \<not> kp ! k \<longrightarrow>
       (\<exists>s1. emulate_instruction ext rnd s = Inr s1 \<and> PC s1 = PC s \<and> V s1 = V s \<and>
          emulate_instruction ext rnd' (s1\<lparr>keypad := kp\<rparr>) =
            Inr (s\<lparr>keypad := kp, PC := PC s + 2, V := (V s)[op_X opcode := word_of_nat k]\<rparr>))) \<and>
    (\<forall>s'. emulate_instruction ext rnd s = Inr s' \<longrightarrow>
       (if any_key_pressed s \<and> unat (key s) < 16 \<and> \<not> keypad s ! unat (key s)
        then s' = s\<lparr>PC := PC s + 2, V := (V s)[op_X opcode := key s], key := 0xFF,
                     any_key_pressed := False\<rparr>
        else PC s' = PC s \<and> V s' = V s) \<and>
       (\<not> any_key_pressed s \<and> any_key_pressed s' \<longrightarrow>
          (\<exists>k<16. keypad s ! k \<and> key s' = word_of_nat k)))"
proof -
  note em = emulate_F0A [OF assms]
  have idle: "(\<forall>k<16. \<not> keypad s ! k) \<and> \<not> any_key_pressed s \<longrightarrow> run ext rnds s = Inr s"
  proof
    assume h: "(\<forall>k<16. \<not> keypad s ! k) \<and> \<not> any_key_pressed s"
    then have step: "emulate_instruction ext r s = Inr s" for r
      using em exec_F0A_idle [of s] by simp
    show "run ext rnds s = Inr s"
      by (induction rnds) (simp_all add: step)
  qed
  have first: "emulate_instruction ext r s =
      Inr (s\<lparr>key := word_of_nat k, any_key_pressed := True\<rparr>)"
    if "\<not> any_key_pressed s \<and> key s = 0xFF \<and> k < 16 \<and> keypad s ! k \<and> (\<forall>j<k. \<not> keypad s ! j)"
    for r
    using that em exec_F0A_first [of s k "op_X opcode"] by simp
  have hold: "any_key_pressed s \<and> unat (key s) < 16 \<and> keypad s ! unat (key s) \<longrightarrow>
      run ext rnds s = Inr s"
  proof
    assume h: "any_key_pressed s \<and> unat (key s) < 16 \<and> keypad s ! unat (key s)"
    then have step: "emulate_instruction ext r s = Inr s" for r
      using em exec_F0A_held [of s "op_X opcode"] by simp
    show "run ext rnds s = Inr s"
      by (induction rnds) (simp_all add: step)
  qed
  have release: "any_key_pressed s \<and> unat (key s) < 16 \<and> \<not> keypad s ! unat (key s) \<longrightarrow>
      emulate_instruction ext rnd s =
        Inr (s\<lparr>PC := PC s + 2, V := (V s)[op_X opcode := key s], key := 0xFF,
               any_key_pressed := False\<rparr>)"
    using em exec_F0A_released [of s "op_X opcode"] by simp
  have two: "\<exists>s1. emulate_instruction ext rnd s = Inr s1 \<and> PC s1 = PC s \<and> V s1 = V s \<and>
      emulate_instruction ext rnd' (s1\<lparr>keypad := kp\<rparr>) =
        Inr (s\<lparr>keypad := kp, PC := PC s + 2, V := (V s)[op_X opcode := word_of_nat k]\<rparr>)"
    if h: "\<not> any_key_pressed s \<and> key s = 0xFF \<and> k < 16 \<and> keypad s ! k \<and>
      (\<forall>j<k. \<not> keypad s ! j) \<and> \<not> kp ! k"
  proof -
    let ?s1 = "s\<lparr>key := word_of_nat k, any_key_pressed := True\<rparr>"
    let ?s2 = "s\<lparr>key := word_of_nat k, any_key_pressed := True, keypad := kp\<rparr>"
    have f: "fetch ?s2 = Inr opcode"
      using assms(1) by (simp add: fetch_upd_keypad)
    have "emulate_instruction ext rnd' ?s2 =
        exec_F0A (op_X opcode) (?s2\<lparr>PC := PC ?s2 + 2\<rparr>)"
      by (rule emulate_F0A [OF f assms(2) assms(3)])
    also have "\<dots> = Inr (?s2\<lparr>PC := PC ?s2 + 2, V := (V ?s2)[op_X opcode := key ?s2],
        key := 0xFF, any_key_pressed := False\<rparr>)"
      using h by (intro exec_F0A_released) (simp_all add: unat_key_of_nat)
    also have "\<dots> = Inr (s\<lparr>keypad := kp, PC := PC s + 2,
        V := (V s)[op_X opcode := word_of_nat k]\<rparr>)"
      using h by simp
    finally have "emulate_instruction ext rnd' (?s1\<lparr>keypad := kp\<rparr>) =
        Inr (s\<lparr>keypad := kp, PC := PC s + 2, V := (V s)[op_X opcode := word_of_nat k]\<rparr>)"
      by simp
    with first [of rnd] h show ?thesis by simp
  qed
  have step: "\<forall>s'. emulate_instruction ext rnd s = Inr s' \<longrightarrow>
       (if any_key_pressed s \<and> unat (key s) < 16 \<and> \<not> keypad s ! unat (key s)
        then s' = s\<lparr>PC := PC s + 2, V := (V s)[op_X opcode := key s], key := 0xFF,
                     any_key_pressed := False\<rparr>
        else PC s' = PC s \<and> V s' = V s) \<and>
       (\<not> any_key_pressed s \<and> any_key_pressed s' \<longrightarrow>
          (\<exists>k<16. keypad s ! k \<and> key s' = word_of_nat k))"
  proof (intro allI impI conjI)
    fix s' assume "emulate_instruction ext rnd s = Inr s'"
    then have "exec_F0A (op_X opcode) (s\<lparr>PC := PC s + 2\<rparr>) = Inr s'"
      using em by simp
    from exec_F0A_step [OF this]
    show "(if any_key_pressed s \<and> unat (key s) < 16 \<and> \<not> keypad s ! unat (key s)
            then s' = s\<lparr>PC := PC s + 2, V := (V s)[op_X opcode := key s], key := 0xFF,
                         any_key_pressed := False\<rparr>
            else PC s' = PC s \<and> V s' = V s)"
      by (simp split: if_splits)
  next
    fix s' assume "emulate_instruction ext rnd s = Inr s'"
      and "\<not> any_key_pressed s \<and> any_key_pressed s'"
    then show "\<exists>k<16. keypad s ! k \<and> key s' = word_of_nat k"
      using em exec_F0A_capture [of "op_X opcode" "s\<lparr>PC := PC s + 2\<rparr>" s']
      by simp
  qed
  from idle first [of rnd] hold release two step show ?thesis by blast
qed

theorem await_key_witness:
  "fetch (boot [0xF0, 0x0A]) = Inr 0xF00A \<and> op_class 0xF00A = 0xF \<and> op_NN 0xF00A = 0x0A \<and>
   run CHIP8 [3, 1, 4] (boot [0xF0, 0x0A]) = Inr (boot [0xF0, 0x0A]) \<and>
   PC (boot [0xF0, 0x0A]) = 0x200 \<and> V (boot [0xF0, 0x0A]) ! 0 = 0 \<and>
   pressed = handle_input [SDL_KEYDOWN SDLK_w] (boot [0xF0, 0x0A]) \<and>
   emulate_instruction CHIP8 0 pressed = Inr captured \<and>
   PC captured = 0x200 \<and> V captured ! 0 = 0 \<and> any_key_pressed captured \<and> key captured = 5 \<and>
   run CHIP8 [2, 7, 1] captured = Inr captured \<and>
   held = handle_input [SDL_KEYUP SDLK_w] captured \<and>
   emulate_instruction CHIP8 0 held = Inr released \<and>
   PC released = 0x202 \<and> V released ! 0 = 5 \<and> \<not> any_key_pressed released \<and>
   key released = 0xFF \<and>
   emulate_instruction CHIP8 0 (captured\<lparr>keypad := keypad held\<rparr>) =
     Inr (pressed\<lparr>keypad := keypad held, PC := 0x202, V := (V pressed)[0 := 5]\<rparr>)"
proof -
  have a: "fetch (boot [0xF0, 0x0A]) = Inr 0xF00A" by (simp add: fetch_boot)
  have b: "op_class 0xF00A = 0xF" by (simp add: op_class_def)
  have c: "op_NN 0xF00A = 0x0A" by (simp add: op_NN_def)
  have x: "op_X 0xF00A = 0" by (simp add: op_X_def)
  have d: "(\<forall>k<16. \<not> keypad (boot [0xF0, 0x0A]) ! k) \<and> \<not> any_key_pressed (boot [0xF0, 0x0A])"
    by (rule boot_idle) simp_all
  have e: "PC (boot [0xF0, 0x0A]) = 0x200 \<and> V (boot [0xF0, 0x0A]) ! 0 = 0"
    by (simp add: boot_eq)
  have "fetch pressed = fetch (boot [0xF0, 0x0A])"
    by (simp add: pressed_eq fetch_def ram_read_def)
  with a have fp: "fetch pressed = Inr 0xF00A" by simp
  have "fetch captured = fetch pressed"
    by (simp add: captured_def fetch_def ram_read_def)
  with fp have fc: "fetch captured = Inr 0xF00A" by simp
  have p: "\<not> any_key_pressed pressed \<and> key pressed = 0xFF \<and> (5 :: nat) < 16 \<and>
      keypad pressed ! 5 \<and> (\<forall>j<5. \<not> keypad pressed ! j)"
    by (simp add: pressed_eq boot_eq zeroed_def)
  have u: "\<not> keypad held ! 5" by (simp add: held_eq boot_eq)
  have q: "any_key_pressed captured \<and> unat (key captured) < 16 \<and>
      keypad captured ! unat (key captured)"
    by (simp add: captured_def pressed_eq boot_eq)
  have h: "any_key_pressed held \<and> unat (key held) < 16 \<and> \<not> keypad held ! unat (key held)"
    by (simp add: held_eq boot_eq)
  have pp: "PC pressed = 0x200" by (simp add: pressed_eq boot_eq)
  note at_boot = await_key [where s = "boot [0xF0, 0x0A]" and opcode = "0xF00A" and ext = CHIP8
      and rnds = "[3, 1, 4]" and k = 5 and rnd = 0 and kp = "keypad held" and rnd' = 0,
      OF a b c]
  note at_pressed = await_key [where s = pressed and opcode = "0xF00A" and ext = CHIP8
      and rnds = "[]" and k = 5 and rnd = 0 and kp = "keypad held" and rnd' = 0,
      OF fp b c]
  note at_captured = await_key [where s = captured and opcode = "0xF00A" and ext = CHIP8
      and rnds = "[2, 7, 1]" and k = 5 and rnd = 0 and kp = "keypad held" and rnd' = 0,
      OF fc b c]
  note at_held = await_key [where s = held and opcode = "0xF00A" and ext = CHIP8
      and rnds = "[]" and k = 5 and rnd = 0 and kp = "keypad held" and rnd' = 0,
      OF fetch_held b c]
  have idle: "run CHIP8 [3, 1, 4] (boot [0xF0, 0x0A]) = Inr (boot [0xF0, 0x0A])"
    by (rule at_boot [THEN conjunct1, THEN mp]) (rule d)
  have "emulate_instruction CHIP8 0 pressed =
      Inr (pressed\<lparr>key := word_of_nat 5, any_key_pressed := True\<rparr>)"
    by (rule at_pressed [THEN conjunct2, THEN conjunct1, THEN mp]) (rule p)
  then have cap: "emulate_instruction CHIP8 0 pressed = Inr captured"
    by (simp add: captured_def)
  have stay: "run CHIP8 [2, 7, 1] captured = Inr captured"
    by (rule at_captured [THEN conjunct2, THEN conjunct2, THEN conjunct1, THEN mp]) (rule q)
  have "emulate_instruction CHIP8 0 held =
      Inr (held\<lparr>PC := PC held + 2, V := (V held)[op_X 0xF00A := key held], key := 0xFF,
                any_key_pressed := False\<rparr>)"
    by (rule at_held [THEN conjunct2, THEN conjunct2, THEN conjunct2, THEN conjunct1, THEN mp])
      (rule h)
  then have rel: "emulate_instruction CHIP8 0 held = Inr released"
    by (simp add: released_def x held_eq boot_eq)
  have "\<exists>s1. emulate_instruction CHIP8 0 pressed = Inr s1 \<and> PC s1 = PC pressed \<and>
      V s1 = V pressed \<and>
      emulate_instruction CHIP8 0 (s1\<lparr>keypad := keypad held\<rparr>) =
        Inr (pressed\<lparr>keypad := keypad held, PC := PC pressed + 2,
                    V := (V pressed)[op_X 0xF00A := word_of_nat 5]\<rparr>)"
    by (rule at_pressed [THEN conjunct2, THEN conjunct2, THEN conjunct2, THEN conjunct2,
          THEN conjunct1, THEN mp]) (intro conjI p [THEN conjunct1]
          p [THEN conjunct2, THEN conjunct1] p [THEN conjunct2, THEN conjunct2, THEN conjunct1]
          p [THEN conjunct2, THEN conjunct2, THEN conjunct2, THEN conjunct1]
          p [THEN conjunct2, THEN conjunct2, THEN conjunct2, THEN conjunct2] u)
  then obtain s1 where s1: "emulate_instruction CHIP8 0 pressed = Inr s1"
    and t: "emulate_instruction CHIP8 0 (s1\<lparr>keypad := keypad held\<rparr>) =
        Inr (pressed\<lparr>keypad := keypad held, PC := PC pressed + 2,
                    V := (V pressed)[op_X 0xF00A := word_of_nat 5]\<rparr>)"
    by blast
  from s1 cap have "s1 = captured" by simp
  with t have two: "emulate_instruction CHIP8 0 (captured\<lparr>keypad := keypad held\<rparr>) =
     Inr (pressed\<lparr>keypad := keypad held, PC := 0x202, V := (V pressed)[0 := 5]\<rparr>)"
    by (simp add: x pp)
  have r: "PC captured = 0x200 \<and> V captured ! 0 = 0 \<and> any_key_pressed captured \<and>
      key captured = 5"
    by (simp add: captured_def pressed_eq boot_eq)
  have s: "PC released = 0x202 \<and> V released ! 0 = 5 \<and> \<not> any_key_pressed released \<and>
      key released = 0xFF"
    by (simp add: released_def held_eq boot_eq)
  show ?thesis
    by (intro conjI a b c idle e [THEN conjunct1] e [THEN conjunct2] pressed_def cap
        r [THEN conjunct1] r [THEN conjunct2, THEN conjunct1]
        r [THEN conjunct2, THEN conjunct2, THEN conjunct1]
        r [THEN conjunct2, THEN conjunct2, THEN conjunct2] stay held_def rel
        s [THEN conjunct1] s [THEN conjunct2, THEN conjunct1]
        s [THEN conjunct2, THEN conjunct2, THEN conjunct1]
        s [THEN conjunct2, THEN conjunct2, THEN conjunct2] two)
qed

section \<open>The sprite instruction \<open>DXYN\<close>\<close>

lemma idx_eq:
  assumes "x < 64" and "x' < 64"
  shows "(y * 64 + x = y' * 64 + x') \<longleftrightarrow> (y = y' \<and> x = (x' :: nat))"
proof
  assume e: "y * 64 + x = y' * 64 + x'"
  have "(y * 64 + x) div 64 = y" using assms by simp
  moreover have "(y' * 64 + x') div 64 = y'" using assms by simp
  ultimately have "y = y'" using e by metis
  with e show "y = y' \<and> x = x'" by simp
qed simp

lemma sprite_bit_iff: "((sd :: u8) AND 2 ^ j = 0) \<longleftrightarrow> \<not> bit sd j"
  using bit_iff_and_push_bit_not_eq_0 [of sd j] by simp

lemma idx_lt: "x < 64 \<Longrightarrow> y < 32 \<Longrightarrow> y * 64 + x < (2048 :: nat)"
  by simp

lemma draw_bits_frame:
  "\<exists>d v. draw_bits sd k xc yc s = s\<lparr>display := d, V := v\<rparr>"
proof (induction k arbitrary: xc s)
  case 0
  have "draw_bits sd 0 xc yc s = s\<lparr>display := display s, V := V s\<rparr>" by simp
  then show ?case by blast
next
  case (Suc j)
  let ?p = "yc * WINDOW_WIDTH + xc"
  let ?bit = "sd AND push_bit j 1 \<noteq> 0"
  let ?s1 = "if ?bit \<and> display s ! ?p then s\<lparr>V := (V s)[0xF := 1]\<rparr> else s"
  let ?s2 = "?s1\<lparr>display := (display ?s1)[?p := (display s ! ?p \<noteq> ?bit)]\<rparr>"
  show ?case
  proof (cases "xc + 1 \<ge> WINDOW_WIDTH")
    case True
    then have "draw_bits sd (Suc j) xc yc s = s\<lparr>display := display ?s2, V := V ?s2\<rparr>"
      by (simp add: Let_def)
    then show ?thesis by blast
  next
    case False
    from Suc.IH [of "xc + 1" ?s2] obtain d v where
      "draw_bits sd j (xc + 1) yc ?s2 = ?s2\<lparr>display := d, V := v\<rparr>" by blast
    moreover have "draw_bits sd (Suc j) xc yc s = draw_bits sd j (xc + 1) yc ?s2"
      using False by (simp add: Let_def)
    moreover have "?s2\<lparr>display := d, V := v\<rparr> = s\<lparr>display := d, V := v\<rparr>" by simp
    ultimately have "draw_bits sd (Suc j) xc yc s = s\<lparr>display := d, V := v\<rparr>" by simp
    then show ?thesis by blast
  qed
qed

lemma draw_bits_length:
  "length (display (draw_bits sd k xc yc s)) = length (display s) \<and>
   length (V (draw_bits sd k xc yc s)) = length (V s)"
  by (induction k arbitrary: xc s) (auto simp: Let_def)

lemma draw_bits_display:
  assumes "length (display s) = 2048" and "xc < 64" and "yc < 32" and "x < 64" and "y < 32"
  shows "display (draw_bits sd k xc yc s) ! (y * 64 + x) =
           (display s ! (y * 64 + x) \<noteq> (y = yc \<and> row_pixel sd k xc x))"
  using assms(1,2)
proof (induction k arbitrary: xc s)
  case 0
  then show ?case by (simp add: row_pixel_def)
next
  case (Suc j)
  let ?p = "yc * 64 + xc"
  let ?bit = "sd AND push_bit j 1 \<noteq> 0"
  let ?s1 = "if ?bit \<and> display s ! ?p then s\<lparr>V := (V s)[0xF := 1]\<rparr> else s"
  let ?s2 = "?s1\<lparr>display := (display ?s1)[?p := (display s ! ?p \<noteq> ?bit)]\<rparr>"
  have d2: "display ?s2 = (display s)[?p := (display s ! ?p \<noteq> bit sd j)]"
    by (simp add: sprite_bit_iff)
  have p: "?p < 2048" using Suc.prems assms by simp
  have here: "display ?s2 ! (y * 64 + x) =
      (display s ! (y * 64 + x) \<noteq> (y = yc \<and> x = xc \<and> bit sd j))"
    unfolding d2 using Suc.prems assms p by (auto simp: nth_list_update idx_eq)
  show ?case
  proof (cases "xc + 1 \<ge> 64")
    case True
    then have "draw_bits sd (Suc j) xc yc s = ?s2"
      by (simp add: Let_def WINDOW_WIDTH_def)
    moreover have "row_pixel sd (Suc j) xc x \<longleftrightarrow> x = xc \<and> bit sd j"
      using True assms Suc.prems by (auto simp: row_pixel_def)
    ultimately show ?thesis using here by simp
  next
    case False
    then have e: "draw_bits sd (Suc j) xc yc s = draw_bits sd j (xc + 1) yc ?s2"
      by (simp add: Let_def WINDOW_WIDTH_def)
    have l2: "length (display ?s2) = 2048" using Suc.prems by simp
    have x1: "xc + 1 < 64" using False by simp
    have ih: "display (draw_bits sd j (xc + 1) yc ?s2) ! (y * 64 + x) =
       (display ?s2 ! (y * 64 + x) \<noteq> (y = yc \<and> row_pixel sd j (xc + 1) x))"
      by (rule Suc.IH [OF l2 x1])
    have split: "row_pixel sd (Suc j) xc x \<longleftrightarrow>
        (x = xc \<and> bit sd j) \<or> row_pixel sd j (xc + 1) x"
    proof (cases "x = xc")
      case True
      then show ?thesis by (simp add: row_pixel_def)
    next
      case False
      show ?thesis
      proof (cases "xc < x")
        case True
        then have "j - (x - xc) = j - 1 - (x - (xc + 1))" by simp
        with True show ?thesis by (auto simp: row_pixel_def)
      next
        case F: False
        with False show ?thesis by (auto simp: row_pixel_def)
      qed
    qed
    have excl: "\<not> (x = xc \<and> row_pixel sd j (xc + 1) x)" by (simp add: row_pixel_def)
    show ?thesis unfolding e ih here split using excl by blast
  qed
qed

lemma row_pixel_Suc:
  "row_pixel sd (Suc j) xc x \<longleftrightarrow> (x = xc \<and> bit sd j) \<or> row_pixel sd j (xc + 1) x"
proof (cases "x = xc")
  case True
  then show ?thesis by (simp add: row_pixel_def)
next
  case False
  show ?thesis
  proof (cases "xc < x")
    case True
    then have "j - (x - xc) = j - 1 - (x - (xc + 1))" by simp
    with True show ?thesis by (auto simp: row_pixel_def)
  next
    case F: False
    with False show ?thesis by (auto simp: row_pixel_def)
  qed
qed

lemma draw_bits_V:
  assumes "length (display s) = 2048" and "xc < 64" and "yc < 32"
  shows "V (draw_bits sd k xc yc s) =
           (if \<exists>x<64. row_pixel sd k xc x \<and> display s ! (yc * 64 + x)
            then (V s)[0xF := 1] else V s)"
  using assms(1,2)
proof (induction k arbitrary: xc s)
  case 0
  then show ?case by (simp add: row_pixel_def)
next
  case (Suc j)
  let ?p = "yc * 64 + xc"
  let ?bit = "sd AND push_bit j 1 \<noteq> 0"
  let ?s1 = "if ?bit \<and> display s ! ?p then s\<lparr>V := (V s)[0xF := 1]\<rparr> else s"
  let ?s2 = "?s1\<lparr>display := (display ?s1)[?p := (display s ! ?p \<noteq> ?bit)]\<rparr>"
  have d2: "display ?s2 = (display s)[?p := (display s ! ?p \<noteq> bit sd j)]"
    by (simp add: sprite_bit_iff)
  have v2: "V ?s2 = (if bit sd j \<and> display s ! ?p then (V s)[0xF := 1] else V s)"
    by (simp add: sprite_bit_iff)
  have p: "?p < 2048" using Suc.prems assms by simp
  show ?case
  proof (cases "xc + 1 \<ge> 64")
    case True
    then have "draw_bits sd (Suc j) xc yc s = ?s2"
      by (simp add: Let_def WINDOW_WIDTH_def)
    moreover have "row_pixel sd (Suc j) xc x \<longleftrightarrow> x = xc \<and> bit sd j" if "x < 64" for x
      using True that Suc.prems by (auto simp: row_pixel_def)
    then have "(\<exists>x<64. row_pixel sd (Suc j) xc x \<and> display s ! (yc * 64 + x)) \<longleftrightarrow>
               (bit sd j \<and> display s ! ?p)"
      using Suc.prems by auto
    ultimately show ?thesis using v2 by simp
  next
    case False
    then have e: "draw_bits sd (Suc j) xc yc s = draw_bits sd j (xc + 1) yc ?s2"
      by (simp add: Let_def WINDOW_WIDTH_def)
    have l2: "length (display ?s2) = 2048" using Suc.prems by simp
    have x1: "xc + 1 < 64" using False by simp
    have ih: "V (draw_bits sd j (xc + 1) yc ?s2) =
       (if \<exists>x<64. row_pixel sd j (xc + 1) x \<and> display ?s2 ! (yc * 64 + x)
        then (V ?s2)[0xF := 1] else V ?s2)"
      by (rule Suc.IH [OF l2 x1])
    have same: "display ?s2 ! (yc * 64 + x) = display s ! (yc * 64 + x)"
      if "row_pixel sd j (xc + 1) x" and "x < 64" for x
    proof -
      from that have "x \<noteq> xc" by (simp add: row_pixel_def)
      then have "yc * 64 + x \<noteq> ?p" by simp
      then show ?thesis unfolding d2 by simp
    qed
    have rest: "(\<exists>x<64. row_pixel sd j (xc + 1) x \<and> display ?s2 ! (yc * 64 + x)) \<longleftrightarrow>
                (\<exists>x<64. row_pixel sd j (xc + 1) x \<and> display s ! (yc * 64 + x))"
      using same by blast
    have all: "(\<exists>x<64. row_pixel sd (Suc j) xc x \<and> display s ! (yc * 64 + x)) \<longleftrightarrow>
               (bit sd j \<and> display s ! ?p) \<or>
               (\<exists>x<64. row_pixel sd j (xc + 1) x \<and> display s ! (yc * 64 + x))"
      using Suc.prems by (auto simp: row_pixel_Suc)
    show ?thesis unfolding e ih rest all v2 by auto
  qed
qed

lemma sprite_pixel_frame [simp]:
  "sprite_pixel (s\<lparr>display := d, V := v\<rparr>) i N x0 yc x y = sprite_pixel s i N x0 yc x y"
  by (simp add: sprite_pixel_def)

lemma sprite_pixel_step:
  assumes "i < N"
  shows "sprite_pixel s i N x0 yc x y \<longleftrightarrow>
           (y = yc \<and> row_pixel (ram s ! (unat (I s) + i)) 8 x0 x) \<or>
           sprite_pixel s (i + 1) N x0 (yc + 1) x y"
proof (cases "y = yc")
  case True
  with assms show ?thesis by (simp add: sprite_pixel_def)
next
  case False
  show ?thesis
  proof (cases "yc < y")
    case True
    then have a: "i + (y - yc) = i + 1 + (y - (yc + 1))"
      and b: "unat (I s) + i + (y - yc) = unat (I s) + (i + 1) + (y - (yc + 1))"
      by simp_all
    show ?thesis unfolding sprite_pixel_def b a using True by auto
  next
    case F: False
    with False show ?thesis by (simp add: sprite_pixel_def)
  qed
qed

lemma sprite_pixel_below: "sprite_pixel s (i + 1) N x0 (yc + 1) x y \<Longrightarrow> y \<noteq> yc"
  by (simp add: sprite_pixel_def)

lemma sprite_pixel_none: "\<not> i < N \<Longrightarrow> \<not> sprite_pixel s i N x0 yc x y"
  by (simp add: sprite_pixel_def)

lemma draw_rows_ok:
  assumes "length (display s) = 2048" and "x0 < 64" and "yc < 32"
    and "i < N \<longrightarrow> unat (I s) + i + min (N - i) (32 - yc) \<le> 4096"
  shows "\<exists>d v. draw_rows i N x0 yc s = Inr (s\<lparr>display := d, V := v\<rparr>) \<and>
           length d = 2048 \<and>
           (\<forall>x<64. \<forall>y<32. d ! (y * 64 + x) =
              (display s ! (y * 64 + x) \<noteq> sprite_pixel s i N x0 yc x y)) \<and>
           v = (if \<exists>x<64. \<exists>y<32. sprite_pixel s i N x0 yc x y \<and> display s ! (y * 64 + x)
                then (V s)[0xF := 1] else V s)"
  using assms
proof (induction i N x0 yc s rule: draw_rows.induct)
  case (1 i N x0 yc s)
  show ?case
  proof (cases "i < N")
    case False
    then have "draw_rows i N x0 yc s = Inr s"
      by (subst draw_rows.simps) simp
    with False "1.prems" show ?thesis
      by (intro exI [of _ "display s"] exI [of _ "V s"]) (simp add: sprite_pixel_none)
  next
    case True
    let ?sd = "ram s ! (unat (I s) + i)"
    let ?s1 = "draw_bits ?sd 8 x0 yc s"
    from True "1.prems" have inb: "unat (I s) + i < 4096" by simp
    then have rd: "ram_read (unat (I s) + i) s = Inr ?sd" by (simp add: ram_read_def)
    obtain d1 v1 where s1: "?s1 = s\<lparr>display := d1, V := v1\<rparr>"
      using draw_bits_frame by blast
    have d1: "d1 = display ?s1" and v1: "v1 = V ?s1" using s1 by simp_all
    have l1: "length d1 = 2048" using draw_bits_length [of ?sd 8 x0 yc s] "1.prems" d1 by simp
    have px1: "d1 ! (y * 64 + x) = (display s ! (y * 64 + x) \<noteq> (y = yc \<and> row_pixel ?sd 8 x0 x))"
      if "x < 64" "y < 32" for x y
      unfolding d1 using draw_bits_display [of s x0 yc x y ?sd 8] "1.prems" that by simp
    have vf1: "v1 = (if \<exists>x<64. row_pixel ?sd 8 x0 x \<and> display s ! (yc * 64 + x)
                     then (V s)[0xF := 1] else V s)"
      unfolding v1 using draw_bits_V [of s x0 yc ?sd 8] "1.prems" by simp
    show ?thesis
    proof (cases "yc + 1 \<ge> 32")
      case last: True
      then have e: "draw_rows i N x0 yc s = Inr (s\<lparr>display := d1, V := v1\<rparr>)"
        using True rd s1 by (subst draw_rows.simps) (simp add: Let_def WINDOW_HEIGHT_def)
      have only: "sprite_pixel s i N x0 yc x y \<longleftrightarrow> (y = yc \<and> row_pixel ?sd 8 x0 x)"
        if "y < 32" for x y
        using that last True by (auto simp: sprite_pixel_def)
      have pxl: "\<forall>x<64. \<forall>y<32. d1 ! (y * 64 + x) =
              (display s ! (y * 64 + x) \<noteq> sprite_pixel s i N x0 yc x y)"
        using px1 only by simp
      have "(\<exists>x<64. \<exists>y<32. sprite_pixel s i N x0 yc x y \<and> display s ! (y * 64 + x)) \<longleftrightarrow>
          (\<exists>x<64. row_pixel ?sd 8 x0 x \<and> display s ! (yc * 64 + x))"
        using only "1.prems" by auto
      then have vfl: "v1 = (if \<exists>x<64. \<exists>y<32. sprite_pixel s i N x0 yc x y \<and>
                      display s ! (y * 64 + x)
                then (V s)[0xF := 1] else V s)"
        using vf1 by simp
      from e l1 pxl vfl show ?thesis by blast
    next
      case more: False
      have pre: "i + 1 < N \<longrightarrow> unat (I ?s1) + (i + 1) + min (N - (i + 1)) (32 - (yc + 1)) \<le> 4096"
        using "1.prems" True more s1 by (auto simp: min_def split: if_splits)
      have "\<exists>d v. draw_rows (i + 1) N x0 (yc + 1) ?s1 = Inr (?s1\<lparr>display := d, V := v\<rparr>) \<and>
           length d = 2048 \<and>
           (\<forall>x<64. \<forall>y<32. d ! (y * 64 + x) =
              (display ?s1 ! (y * 64 + x) \<noteq> sprite_pixel ?s1 (i + 1) N x0 (yc + 1) x y)) \<and>
           v = (if \<exists>x<64. \<exists>y<32. sprite_pixel ?s1 (i + 1) N x0 (yc + 1) x y \<and>
                     display ?s1 ! (y * 64 + x)
                then (V ?s1)[0xF := 1] else V ?s1)"
      proof (rule "1.IH" [OF True rd refl])
        show "\<not> WINDOW_HEIGHT \<le> yc + 1" using more by (simp add: WINDOW_HEIGHT_def)
        show "length (display ?s1) = 2048" using l1 d1 by simp
        show "x0 < 64" using "1.prems" by simp
        show "yc + 1 < 32" using more by simp
        show "i + 1 < N \<longrightarrow>
          unat (I ?s1) + (i + 1) + min (N - (i + 1)) (32 - (yc + 1)) \<le> 4096" by (rule pre)
      qed
      then obtain d v where
        r: "draw_rows (i + 1) N x0 (yc + 1) ?s1 = Inr (?s1\<lparr>display := d, V := v\<rparr>)"
        and ld: "length d = 2048"
        and px: "\<forall>x<64. \<forall>y<32. d ! (y * 64 + x) =
              (display ?s1 ! (y * 64 + x) \<noteq> sprite_pixel ?s1 (i + 1) N x0 (yc + 1) x y)"
        and vf: "v = (if \<exists>x<64. \<exists>y<32. sprite_pixel ?s1 (i + 1) N x0 (yc + 1) x y \<and>
                     display ?s1 ! (y * 64 + x)
                then (V ?s1)[0xF := 1] else V ?s1)"
        by blast
      have sp1: "sprite_pixel ?s1 (i + 1) N x0 (yc + 1) x y = sprite_pixel s (i + 1) N x0 (yc + 1) x y"
        for x y
        by (subst s1) simp
      have e: "draw_rows i N x0 yc s = Inr (s\<lparr>display := d, V := v\<rparr>)"
      proof -
        have "draw_rows i N x0 yc s = draw_rows (i + 1) N x0 (yc + 1) ?s1"
          using True rd more by (subst draw_rows.simps) (simp add: Let_def WINDOW_HEIGHT_def)
        also have "\<dots> = Inr (?s1\<lparr>display := d, V := v\<rparr>)" by (rule r)
        also have "?s1\<lparr>display := d, V := v\<rparr> = s\<lparr>display := d, V := v\<rparr>"
          by (subst s1) simp
        finally show ?thesis .
      qed
      have pxs: "d ! (y * 64 + x) = (display s ! (y * 64 + x) \<noteq> sprite_pixel s i N x0 yc x y)"
        if "x < 64" "y < 32" for x y
      proof -
        have "d ! (y * 64 + x) =
            (d1 ! (y * 64 + x) \<noteq> sprite_pixel s (i + 1) N x0 (yc + 1) x y)"
          using px that d1 sp1 by simp
        also have "\<dots> = ((display s ! (y * 64 + x) \<noteq> (y = yc \<and> row_pixel ?sd 8 x0 x))
             \<noteq> sprite_pixel s (i + 1) N x0 (yc + 1) x y)"
          using px1 [OF that] by simp
        also have "\<dots> = (display s ! (y * 64 + x) \<noteq> sprite_pixel s i N x0 yc x y)"
          using sprite_pixel_step [OF True, of s x0 yc x y] sprite_pixel_below [of s i N x0 yc x y]
          by auto
        finally show ?thesis .
      qed
      have below: "d1 ! (y * 64 + x) = display s ! (y * 64 + x)"
        if "sprite_pixel s (i + 1) N x0 (yc + 1) x y" "x < 64" "y < 32" for x y
        using px1 [OF that(2,3)] sprite_pixel_below [OF that(1)] by simp
      have ex: "(\<exists>x<64. \<exists>y<32. sprite_pixel s i N x0 yc x y \<and> display s ! (y * 64 + x)) \<longleftrightarrow>
          (\<exists>x<64. row_pixel ?sd 8 x0 x \<and> display s ! (yc * 64 + x)) \<or>
          (\<exists>x<64. \<exists>y<32. sprite_pixel s (i + 1) N x0 (yc + 1) x y \<and> d1 ! (y * 64 + x))"
        (is "?A \<longleftrightarrow> ?B \<or> ?C")
      proof
        assume ?A
        then obtain x y where xy: "x < 64" "y < 32" "sprite_pixel s i N x0 yc x y"
          "display s ! (y * 64 + x)" by blast
        from xy(3) sprite_pixel_step [OF True, of s x0 yc x y]
        consider "y = yc \<and> row_pixel ?sd 8 x0 x" | "sprite_pixel s (i + 1) N x0 (yc + 1) x y"
          by blast
        then show "?B \<or> ?C"
        proof cases
          case 1
          with xy show ?thesis by blast
        next
          case 2
          with below [OF 2 xy(1,2)] xy show ?thesis by auto
        qed
      next
        assume "?B \<or> ?C"
        then show ?A
        proof
          assume ?B
          then obtain x where "x < 64" "row_pixel ?sd 8 x0 x" "display s ! (yc * 64 + x)" by blast
          moreover from this have "sprite_pixel s i N x0 yc x yc"
            using sprite_pixel_step [OF True, of s x0 yc x yc] by simp
          ultimately show ?A using "1.prems" by blast
        next
          assume ?C
          then obtain x y where xy: "x < 64" "y < 32" "sprite_pixel s (i + 1) N x0 (yc + 1) x y"
            "d1 ! (y * 64 + x)" by blast
          from below [OF xy(3,1,2)] xy(4) have "display s ! (y * 64 + x)" by simp
          moreover have "sprite_pixel s i N x0 yc x y"
            using sprite_pixel_step [OF True, of s x0 yc x y] xy(3) by simp
          ultimately show ?A using xy by blast
        qed
      qed
      have vfs: "v = (if ?A then (V s)[0xF := 1] else V s)"
      proof -
        have dv: "display ?s1 = d1" "V ?s1 = v1" using d1 v1 by simp_all
        have v': "v = (if ?C then v1[0xF := 1] else v1)"
          using vf unfolding sp1 dv by simp
        show ?thesis
        proof (cases ?B)
          case True
          have "v1 = (V s)[0xF := 1]" using vf1 by (simp only: True if_True)
          with v' have "v = (V s)[0xF := 1]" by (simp only: list_update_overwrite if_cancel)
          moreover have ?A using ex True by (simp only: simp_thms)
          ultimately show ?thesis by (simp only: if_True)
        next
          case False
          have "v1 = V s" using vf1 by (simp only: False if_False)
          with v' have "v = (if ?C then (V s)[0xF := 1] else V s)" by (simp only:)
          moreover have "?A \<longleftrightarrow> ?C" using ex False by (simp only: simp_thms)
          ultimately show ?thesis by (simp only:)
        qed
      qed
      from e ld pxs vfs show ?thesis by blast
    qed
  qed
qed

lemma draw_rows_fault:
  assumes "yc < 32" and "i < N" and "unat (I s) + i + min (N - i) (32 - yc) > 4096"
  shows "draw_rows i N x0 yc s = Inl RamOutOfBounds"
  using assms
proof (induction i N x0 yc s rule: draw_rows.induct)
  case (1 i N x0 yc s)
  show ?case
  proof (cases "unat (I s) + i < 4096")
    case False
    then show ?thesis using "1.prems"
      by (subst draw_rows.simps) (simp add: ram_read_def)
  next
    case True
    let ?sd = "ram s ! (unat (I s) + i)"
    let ?s1 = "draw_bits ?sd 8 x0 yc s"
    from True have rd: "ram_read (unat (I s) + i) s = Inr ?sd" by (simp add: ram_read_def)
    obtain d1 v1 where s1: "?s1 = s\<lparr>display := d1, V := v1\<rparr>"
      using draw_bits_frame by blast
    have I1: "I ?s1 = I s" by (subst s1) simp
    have more: "\<not> yc + 1 \<ge> 32" using True "1.prems" by (auto simp: min_def split: if_splits)
    have next_row: "i + 1 < N" using True "1.prems" by (auto simp: min_def split: if_splits)
    have "draw_rows (i + 1) N x0 (yc + 1) ?s1 = Inl RamOutOfBounds"
    proof (rule "1.IH" [OF "1.prems"(2) rd refl])
      show "\<not> WINDOW_HEIGHT \<le> yc + 1" using more by (simp add: WINDOW_HEIGHT_def)
      show "yc + 1 < 32" using more by simp
      show "i + 1 < N" by (rule next_row)
      show "4096 < unat (I ?s1) + (i + 1) + min (N - (i + 1)) (32 - (yc + 1))"
        unfolding I1 using "1.prems" more next_row by (auto simp: min_def split: if_splits)
    qed
    moreover have "draw_rows i N x0 yc s = draw_rows (i + 1) N x0 (yc + 1) ?s1"
      using "1.prems" rd more by (subst draw_rows.simps) (simp add: Let_def WINDOW_HEIGHT_def)
    ultimately show ?thesis by simp
  qed
qed

lemma sprite_pixel_0: "sprite_pixel s 0 N x0 y0 x y = sprite_cell s N x0 y0 x y"
  by (simp add: sprite_pixel_def sprite_cell_def row_pixel_def)

lemma sprite_cell_frame [simp]:
  "sprite_cell (s\<lparr>PC := p, V := v\<rparr>) N x0 y0 x y = sprite_cell s N x0 y0 x y"
  by (simp add: sprite_cell_def)

lemma emulate_D:
  assumes "fetch s = Inr opcode" and "op_class opcode = 0xD"
  shows "emulate_instruction ext rnd s =
           exec_D (unat (op_N opcode)) (op_X opcode) (op_Y opcode) (s\<lparr>PC := PC s + 2\<rparr>)"
  using assms by (simp add: emulate_instruction_def exec_opcode_def Let_def)


text \<open>
  C2 (as amended). The rows \<open>DXYN\<close> reads are the first \<open>min N (32 - Vy mod 32)\<close> of
  the sprite, row \<open>i\<close> from \<open>ram[I + i]\<close>, and nothing checks that address. When all
  of them lie inside the 4096 bytes of \<open>ram\<close> (or \<open>N = 0\<close>), the instruction draws from
  column \<open>Vx mod 64\<close> and row \<open>Vy mod 32\<close>, the most significant bit of a row
  leftmost. Every cell of the display is XORed with the sprite bit that covers it;
  cells to the left, to the right of column 63 and below row 31 are not touched, so a
  sprite is clipped and does not wrap. \<open>VF\<close> ends as 1 when some set sprite bit covers
  a cell that was set, and as 0 otherwise; the \<open>draw\<close> flag is set. When one of the
  rows lies beyond \<open>ram\<close>, the read is outside the array.
\<close>

theorem draw_sprite:
  assumes "sized s" and "fetch s = Inr opcode" and "op_class opcode = 0xD"
    and "x0 = unat (V s ! op_X opcode) mod 64" and "y0 = unat (V s ! op_Y opcode) mod 32"
    and "N = unat (op_N opcode)" and "rows = min N (32 - y0)"
  shows "(rows = 0 \<or> unat (I s) + rows \<le> 4096 \<longrightarrow>
           (\<exists>s'. emulate_instruction ext rnd s = Inr s' \<and>
              (\<forall>x<64. \<forall>y<32. display s' ! (y * 64 + x) =
                 (display s ! (y * 64 + x) \<noteq> sprite_cell s N x0 y0 x y)) \<and>
              V s' ! 0xF =
                (if \<exists>x<64. \<exists>y<32. sprite_cell s N x0 y0 x y \<and> display s ! (y * 64 + x)
                 then 1 else 0) \<and>
              (\<forall>k<15. V s' ! k = V s ! k) \<and> draw s' \<and>
              PC s' = PC s + 2 \<and> ram s' = ram s \<and> I s' = I s)) \<and>
         (rows \<noteq> 0 \<and> unat (I s) + rows > 4096 \<longrightarrow>
            emulate_instruction ext rnd s = Inl RamOutOfBounds)"
proof (intro conjI impI)
  let ?s1 = "s\<lparr>PC := PC s + 2, V := (V s)[0xF := 0]\<rparr>"
  have x0: "x0 < 64" and y0: "y0 < 32" using assms by simp_all
  have rows0: "rows = 0 \<longleftrightarrow> N = 0" using assms(7) y0 by (auto simp: min_def)
  have ex: "exec_D N (op_X opcode) (op_Y opcode) (s\<lparr>PC := PC s + 2\<rparr>) =
      (case draw_rows 0 N x0 y0 ?s1 of Inl e \<Rightarrow> Inl e | Inr s2 \<Rightarrow> Inr (s2\<lparr>draw := True\<rparr>))"
    using assms by (simp add: exec_D_def Let_def WINDOW_WIDTH_def WINDOW_HEIGHT_def)
  have em: "emulate_instruction ext rnd s =
      (case draw_rows 0 N x0 y0 ?s1 of Inl e \<Rightarrow> Inl e | Inr s2 \<Rightarrow> Inr (s2\<lparr>draw := True\<rparr>))"
    using emulate_D [OF assms(2,3)] ex assms(6) by simp
  {
    assume ok: "rows = 0 \<or> unat (I s) + rows \<le> 4096"
    have pre: "0 < N \<longrightarrow> unat (I ?s1) + 0 + min (N - 0) (32 - y0) \<le> 4096"
      using ok rows0 assms(7) by auto
    have ld: "length (display ?s1) = 2048" using assms(1) by (simp add: sized_def)
    from draw_rows_ok [OF ld x0 y0 pre] obtain d v where
      r: "draw_rows 0 N x0 y0 ?s1 = Inr (?s1\<lparr>display := d, V := v\<rparr>)"
      and px: "\<forall>x<64. \<forall>y<32. d ! (y * 64 + x) =
              (display ?s1 ! (y * 64 + x) \<noteq> sprite_pixel ?s1 0 N x0 y0 x y)"
      and vf: "v = (if \<exists>x<64. \<exists>y<32. sprite_pixel ?s1 0 N x0 y0 x y \<and>
                       display ?s1 ! (y * 64 + x)
                then (V ?s1)[0xF := 1] else V ?s1)"
      by blast
    let ?s' = "?s1\<lparr>display := d, V := v, draw := True\<rparr>"
    have e: "emulate_instruction ext rnd s = Inr ?s'" using em r by simp
    have lv: "length (V s) = 16" using assms(1) by (simp add: sized_def)
    have a: "\<forall>x<64. \<forall>y<32. display ?s' ! (y * 64 + x) =
                 (display s ! (y * 64 + x) \<noteq> sprite_cell s N x0 y0 x y)"
      using px by (simp add: sprite_pixel_0)
    have v': "v = (if \<exists>x<64. \<exists>y<32. sprite_cell s N x0 y0 x y \<and> display s ! (y * 64 + x)
                then (V s)[0xF := 1] else (V s)[0xF := 0])"
      using vf by (auto simp: sprite_pixel_0)
    have b: "V ?s' ! 0xF =
                (if \<exists>x<64. \<exists>y<32. sprite_cell s N x0 y0 x y \<and> display s ! (y * 64 + x)
                 then 1 else 0)"
      using lv by (cases "\<exists>x<64. \<exists>y<32. sprite_cell s N x0 y0 x y \<and> display s ! (y * 64 + x)")
        (simp_all only: v' if_True if_False, simp_all)
    have c: "\<forall>k<15. V ?s' ! k = V s ! k"
      by (cases "\<exists>x<64. \<exists>y<32. sprite_cell s N x0 y0 x y \<and> display s ! (y * 64 + x)")
        (simp_all only: v' if_True if_False, simp_all)
    have d: "draw ?s' \<and> PC ?s' = PC s + 2 \<and> ram ?s' = ram s \<and> I ?s' = I s" by simp
    from e a b c d
    show "\<exists>s'. emulate_instruction ext rnd s = Inr s' \<and>
              (\<forall>x<64. \<forall>y<32. display s' ! (y * 64 + x) =
                 (display s ! (y * 64 + x) \<noteq> sprite_cell s N x0 y0 x y)) \<and>
              V s' ! 0xF =
                (if \<exists>x<64. \<exists>y<32. sprite_cell s N x0 y0 x y \<and> display s ! (y * 64 + x)
                 then 1 else 0) \<and>
              (\<forall>k<15. V s' ! k = V s ! k) \<and> draw s' \<and>
              PC s' = PC s + 2 \<and> ram s' = ram s \<and> I s' = I s"
      by blast
  }
  {
    assume bad: "rows \<noteq> 0 \<and> unat (I s) + rows > 4096"
    then have N: "0 < N" using rows0 by simp
    have "4096 < unat (I ?s1) + 0 + min (N - 0) (32 - y0)" using bad assms(7) by simp
    from draw_rows_fault [OF y0 N this]
    show "emulate_instruction ext rnd s = Inl RamOutOfBounds" using em by simp
  }
qed

theorem draw_sprite_witness:
  "sized glyph_example \<and> fetch glyph_example = Inr 0xD015 \<and> op_class 0xD015 = 0xD \<and>
   unat (V glyph_example ! op_X 0xD015) mod 64 = 0 \<and>
   unat (V glyph_example ! op_Y 0xD015) mod 32 = 0 \<and> unat (op_N 0xD015) = 5 \<and>
   unat (I glyph_example) + min 5 (32 - 0) \<le> 4096 \<and>
   (\<exists>s'. emulate_instruction CHIP8 0 glyph_example = Inr s' \<and> display s' ! 0 \<and>
         \<not> display s' ! 4 \<and> draw s' \<and> PC s' = 0x202)"
proof -
  have a: "sized glyph_example" by (simp add: glyph_example_def sized_boot)
  have b: "fetch glyph_example = Inr 0xD015" by (simp add: glyph_example_def fetch_boot)
  have c: "op_class 0xD015 = 0xD" by (simp add: op_class_def)
  have x: "0 = unat (V glyph_example ! op_X 0xD015) mod 64"
    by (simp add: glyph_example_def boot_eq op_X_def)
  have y: "0 = unat (V glyph_example ! op_Y 0xD015) mod 32"
    by (simp add: glyph_example_def boot_eq op_Y_def)
  have n: "5 = unat (op_N 0xD015)" by (simp add: op_N_def)
  have r: "5 = min 5 (32 - (0::nat))" by simp
  have i: "unat (I glyph_example) + 5 \<le> 4096" by (simp add: glyph_example_def boot_eq)
  have p: "PC glyph_example = 0x200" by (simp add: glyph_example_def boot_eq)
  have c0: "sprite_cell glyph_example 5 0 0 0 0"
    by (simp add: sprite_cell_def glyph_example_def boot_eq font_def zeroed_def)
  have c4: "\<not> sprite_cell glyph_example 5 0 0 4 0"
    by (simp add: sprite_cell_def glyph_example_def boot_eq font_def zeroed_def)
  have d: "\<not> display glyph_example ! 0" "\<not> display glyph_example ! 4"
    by (simp_all add: glyph_example_def boot_eq)
  from draw_sprite [OF a b c x y n r, of CHIP8 0] i obtain s' where
    e: "emulate_instruction CHIP8 0 glyph_example = Inr s'"
    and px: "\<forall>x<64. \<forall>y<32. display s' ! (y * 64 + x) =
                 (display glyph_example ! (y * 64 + x) \<noteq> sprite_cell glyph_example 5 0 0 x y)"
    and rest: "draw s'" "PC s' = PC glyph_example + 2"
    by auto
  have d0: "display s' ! 0" using px [rule_format, of 0 0] c0 d by simp
  have d4: "\<not> display s' ! 4" using px [rule_format, of 4 0] c4 d by simp
  from e d0 d4 rest p have "\<exists>s'. emulate_instruction CHIP8 0 glyph_example = Inr s' \<and>
      display s' ! 0 \<and> \<not> display s' ! 4 \<and> draw s' \<and> PC s' = 0x202"
    by auto
  with a b c x y n i show ?thesis by simp
qed

text \<open>
  The program \<open>AFFF D012\<close>: after \<open>I = 0xFFF\<close>, the second row of the sprite would
  come from \<open>ram[4096]\<close>, and the draw is a read outside the array.
\<close>

theorem draw_sprite_counterexample:
  "emulate_instruction CHIP8 0 edge_example = Inr (edge_example\<lparr>PC := 0x202, I := 0xFFF\<rparr>) \<and>
   sized (edge_example\<lparr>PC := 0x202, I := 0xFFF\<rparr>) \<and>
   fetch (edge_example\<lparr>PC := 0x202, I := 0xFFF\<rparr>) = Inr 0xD012 \<and>
   emulate_instruction CHIP8 0 (edge_example\<lparr>PC := 0x202, I := 0xFFF\<rparr>) =
     Inl RamOutOfBounds \<and>
   run CHIP8 [0, 0] edge_example = Inl RamOutOfBounds"
proof -
  let ?s = "edge_example\<lparr>PC := 0x202, I := 0xFFF\<rparr>"
  have f0: "fetch edge_example = Inr 0xAFFF" by (simp add: edge_example_def fetch_boot)
  have p: "PC edge_example = 0x200" by (simp add: edge_example_def boot_eq)
  have a: "emulate_instruction CHIP8 0 edge_example = Inr ?s"
    using f0 p
    by (simp add: emulate_instruction_def exec_opcode_def op_class_def op_NNN_def Let_def)
  have z: "sized ?s"
    using sized_boot [of "[0xAF, 0xFF, 0xD0, 0x12]"] by (simp add: edge_example_def sized_def)
  have f: "fetch ?s = Inr 0xD012"
    by (simp add: edge_example_def fetch_def ram_read_def boot_eq nth_append font_def
        zeroed_def)
  have c: "op_class 0xD012 = 0xD" by (simp add: op_class_def)
  have "draw_rows 0 2 x0 0 (?s\<lparr>PC := PC ?s + 2, V := (V ?s)[0xF := 0]\<rparr>) =
      Inl RamOutOfBounds" for x0
    by (rule draw_rows_fault) simp_all
  then have "exec_D 2 0 1 (?s\<lparr>PC := PC ?s + 2\<rparr>) = Inl RamOutOfBounds"
    by (simp add: exec_D_def Let_def WINDOW_HEIGHT_def edge_example_def boot_eq)
  then have b: "emulate_instruction CHIP8 0 ?s = Inl RamOutOfBounds"
    using emulate_D [OF f c, of CHIP8 0] by (simp add: op_N_def op_X_def op_Y_def)
  from a z f b show ?thesis by simp
qed

lemma exec_D_zero: "exec_D 0 X Y s = Inr (s\<lparr>V := (V s)[0xF := 0], draw := True\<rparr>)"
  by (simp add: exec_D_def Let_def draw_rows.simps [of 0 0])

text \<open>
  C10. \<open>DXYN\<close> with \<open>N = 0\<close> leaves every cell of the display as it was, leaves
  \<open>VF = 0\<close> and sets the \<open>draw\<close> flag.
\<close>

theorem dxy0:
  assumes "sized s" and "fetch s = Inr opcode" and "op_class opcode = 0xD" and "op_N opcode = 0"
  shows "\<exists>s'. emulate_instruction ext rnd s = Inr s' \<and>
           display s' = display s \<and> V s' ! 0xF = 0 \<and> draw s'"
  using assms by (simp add: emulate_instruction_def exec_opcode_def Let_def exec_D_zero sized_def)

theorem dxy0_witness:
  "sized (boot [0xD1, 0x20]) \<and> fetch (boot [0xD1, 0x20]) = Inr 0xD120 \<and>
   op_class 0xD120 = 0xD \<and> op_N 0xD120 = 0 \<and>
   (\<exists>s'. emulate_instruction CHIP8 0 (boot [0xD1, 0x20]) = Inr s' \<and>
           display s' = display (boot [0xD1, 0x20]) \<and> V s' ! 0xF = 0 \<and> draw s')"
proof -
  have a: "sized (boot [0xD1, 0x20])" by (simp add: sized_boot)
  have b: "fetch (boot [0xD1, 0x20]) = Inr 0xD120" by (simp add: fetch_boot)
  have c: "op_class 0xD120 = 0xD" by (simp add: op_class_def)
  have d: "op_N 0xD120 = 0" by (simp add: op_N_def)
  from dxy0 [OF a b c d, of CHIP8 0] a b c d show ?thesis by simp
qed

section \<open>Register operations\<close>

lemma of_bool_and_1: "of_bool ((w :: u8) AND 1 \<noteq> 0) = w AND 1"
  by (simp add: and_one_eq)

lemma emulate_8:
  assumes "fetch s = Inr opcode" and "op_class opcode = 8"
  shows "emulate_instruction ext rnd s =
           Inr (exec_8 ext (op_N opcode) (op_X opcode) (op_Y opcode) (s\<lparr>PC := PC s + 2\<rparr>))"
  using assms by (simp add: emulate_instruction_def exec_opcode_def Let_def)

lemma execute_8:
  assumes "fetch' c = Inr opcode" and "op_class opcode = 8"
  shows "execute_instruction config rnd c =
           Inr (execute_8 (c\<lparr>PC' := PC' c + 2, inst := decode opcode\<rparr>))"
  using assms by (simp add: execute_instruction_def Let_def decode_class)


text \<open>
  C1 (as amended). \<open>8XY4\<close> in \<open>emulate_instruction\<close> leaves \<open>VF = 1\<close> when
  \<open>Vx + Vy > 255\<close> and \<open>VF = 0\<close> otherwise, and leaves \<open>Vx = (Vx + Vy) mod 256\<close> when
  \<open>X\<close> is not \<open>0xF\<close>. In \<open>execute_instruction\<close> of \<^verbatim>\<open>my_chip8.c\<close>, when neither
  \<open>X\<close> nor \<open>Y\<close> is \<open>0xF\<close>, \<open>Vx = (Vx + Vy) mod 256\<close>, and \<open>VF = 1\<close> when the sum
  exceeds 255.
\<close>

theorem add_carry:
  assumes "op_class opcode = 8" and "op_N opcode = 4"
  shows "(sized s \<and> fetch s = Inr opcode \<longrightarrow>
           (\<exists>s'. emulate_instruction ext rnd s = Inr s' \<and>
              V s' ! 0xF =
                (if unat (V s ! op_X opcode) + unat (V s ! op_Y opcode) > 255 then 1 else 0) \<and>
              (op_X opcode \<noteq> 0xF \<longrightarrow>
                 unat (V s' ! op_X opcode) =
                   (unat (V s ! op_X opcode) + unat (V s ! op_Y opcode)) mod 256))) \<and>
         (sized' c \<and> fetch' c = Inr opcode \<and> op_X opcode \<noteq> 0xF \<and> op_Y opcode \<noteq> 0xF \<longrightarrow>
           (\<exists>c'. execute_instruction config rnd c = Inr c' \<and>
              unat (V' c' ! op_X opcode) =
                (unat (V' c ! op_X opcode) + unat (V' c ! op_Y opcode)) mod 256 \<and>
              (unat (V' c ! op_X opcode) + unat (V' c ! op_Y opcode) > 255 \<longrightarrow>
                 V' c' ! 0xF = 1)))"
proof (intro conjI impI)
  assume h: "sized s \<and> fetch s = Inr opcode"
  have X: "op_X opcode < 16" by (rule op_X_lt)
  from h assms X show "\<exists>s'. emulate_instruction ext rnd s = Inr s' \<and>
              V s' ! 0xF =
                (if unat (V s ! op_X opcode) + unat (V s ! op_Y opcode) > 255 then 1 else 0) \<and>
              (op_X opcode \<noteq> 0xF \<longrightarrow>
                 unat (V s' ! op_X opcode) =
                   (unat (V s ! op_X opcode) + unat (V s ! op_Y opcode)) mod 256)"
    by (simp add: emulate_8 exec_8_def Let_def sized_def carry_iff unat_add8)
next
  assume h: "sized' c \<and> fetch' c = Inr opcode \<and> op_X opcode \<noteq> 0xF \<and> op_Y opcode \<noteq> 0xF"
  have X: "op_X opcode < 16" by (rule op_X_lt)
  from h assms X show "\<exists>c'. execute_instruction config rnd c = Inr c' \<and>
              unat (V' c' ! op_X opcode) =
                (unat (V' c ! op_X opcode) + unat (V' c ! op_Y opcode)) mod 256 \<and>
              (unat (V' c ! op_X opcode) + unat (V' c ! op_Y opcode) > 255 \<longrightarrow>
                 V' c' ! 0xF = 1)"
    by (simp add: execute_8 execute_8_def Let_def sized'_def carry_iff unat_add8
        decode_X decode_Y decode_N)
qed

theorem add_carry_witness:
  "op_class 0x8014 = 8 \<and> op_N 0x8014 = 4 \<and>
   sized add_example \<and> fetch add_example = Inr 0x8014 \<and>
   (\<exists>s'. emulate_instruction CHIP8 0 add_example = Inr s' \<and> V s' ! 0xF = 1 \<and>
          unat (V s' ! 0) = 44) \<and>
   sized' add_example' \<and> fetch' add_example' = Inr 0x8014 \<and>
   (\<exists>c'. execute_instruction set_CONFIG 0 add_example' = Inr c' \<and> unat (V' c' ! 0) = 44 \<and>
          V' c' ! 0xF = 1)"
proof -
  have a: "op_class 0x8014 = 8" by (simp add: op_class_def)
  have b: "op_N 0x8014 = 4" by (simp add: op_N_def)
  have x: "op_X 0x8014 = 0" "op_Y 0x8014 = 1" by (simp_all add: op_X_def op_Y_def)
  have s: "sized add_example \<and> fetch add_example = Inr 0x8014"
    by (simp add: add_example_def sized_boot fetch_boot sized_upd_V)
  have s': "sized' add_example' \<and> fetch' add_example' = Inr 0x8014"
    by (simp add: add_example'_def sized_boot' fetch_boot' sized'_upd_V)
  have v: "V add_example ! 0 = 200" "V add_example ! Suc 0 = 100"
    "V' add_example' ! 0 = 200" "V' add_example' ! Suc 0 = 100"
    by (simp_all add: add_example_def add_example'_def)
  from add_carry [OF a b, where s = add_example and ext = CHIP8 and rnd = 0 and c = add_example'
      and config = set_CONFIG] a b s s' show ?thesis
    by (simp add: x v)
qed


text \<open>
  With \<open>X = 0xF\<close> the flag is written last, over the sum: from \<open>VF = 1\<close>, \<open>V0 = 1\<close>
  the instruction \<open>8F04\<close> leaves \<open>VF = 0\<close>, not 2.
\<close>

theorem add_carry_counterexample:
  "fetch add_to_vf = Inr 0x8F04 \<and> V add_to_vf ! 0xF = 1 \<and> V add_to_vf ! 0 = 1 \<and>
   emulate_instruction CHIP8 0 add_to_vf =
     Inr (add_to_vf\<lparr>PC := 0x202, V := (V add_to_vf)[0xF := 0]\<rparr>) \<and>
   unat ((V add_to_vf)[0xF := 0] ! 0xF) \<noteq> (1 + 1) mod 256"
proof -
  have f: "fetch add_to_vf = Inr 0x8F04" by (simp add: add_to_vf_def fetch_boot)
  have c: "op_class 0x8F04 = 8" by (simp add: op_class_def)
  have p: "PC add_to_vf = 0x200" by (simp add: add_to_vf_def boot_eq)
  show ?thesis
    using f p by (simp add: emulate_8 [OF f c] exec_8_def op_N_def op_X_def op_Y_def Let_def)
      (simp add: add_to_vf_def)
qed


text \<open>
  C8 (as amended). \<open>8XY6\<close> in \<open>emulate_instruction\<close>: under \<open>CHIP8\<close>, \<open>VF\<close> is the low
  bit of \<open>Vy\<close> and, when \<open>X\<close> is not \<open>0xF\<close>, \<open>Vx = Vy >> 1\<close>; under the other
  extensions \<open>VF\<close> is the low bit of \<open>Vx\<close> and, when \<open>X\<close> is not \<open>0xF\<close>,
  \<open>Vx = Vx >> 1\<close>. \<open>execute_instruction\<close> of \<^verbatim>\<open>my_chip8.c\<close> does not look at the
  extension: for \<open>X\<close> other than \<open>0xF\<close> it always shifts \<open>Vx\<close>.
\<close>

theorem shift_right:
  assumes "op_class opcode = 8" and "op_N opcode = 6"
  shows "(sized s \<and> fetch s = Inr opcode \<longrightarrow>
           (\<exists>s'. emulate_instruction CHIP8 rnd s = Inr s' \<and>
              V s' ! 0xF = V s ! op_Y opcode AND 1 \<and>
              (op_X opcode \<noteq> 0xF \<longrightarrow> V s' ! op_X opcode = drop_bit 1 (V s ! op_Y opcode))) \<and>
           (ext \<noteq> CHIP8 \<longrightarrow>
             (\<exists>s'. emulate_instruction ext rnd s = Inr s' \<and>
                V s' ! 0xF = V s ! op_X opcode AND 1 \<and>
                (op_X opcode \<noteq> 0xF \<longrightarrow> V s' ! op_X opcode = drop_bit 1 (V s ! op_X opcode))))) \<and>
         (sized' c \<and> fetch' c = Inr opcode \<and> op_X opcode \<noteq> 0xF \<longrightarrow>
           (\<exists>c'. execute_instruction config rnd c = Inr c' \<and>
              V' c' ! 0xF = V' c ! op_X opcode AND 1 \<and>
              V' c' ! op_X opcode = drop_bit 1 (V' c ! op_X opcode)))"
proof (intro conjI impI)
  assume h: "sized s \<and> fetch s = Inr opcode"
  have X: "op_X opcode < 16" by (rule op_X_lt)
  from h assms X show "\<exists>s'. emulate_instruction CHIP8 rnd s = Inr s' \<and>
              V s' ! 0xF = V s ! op_Y opcode AND 1 \<and>
              (op_X opcode \<noteq> 0xF \<longrightarrow> V s' ! op_X opcode = drop_bit 1 (V s ! op_Y opcode))"
    by (simp add: emulate_8 exec_8_def Let_def sized_def of_bool_and_1)
next
  assume h: "sized s \<and> fetch s = Inr opcode" and e: "ext \<noteq> CHIP8"
  have X: "op_X opcode < 16" by (rule op_X_lt)
  from h e assms X show "\<exists>s'. emulate_instruction ext rnd s = Inr s' \<and>
                V s' ! 0xF = V s ! op_X opcode AND 1 \<and>
                (op_X opcode \<noteq> 0xF \<longrightarrow> V s' ! op_X opcode = drop_bit 1 (V s ! op_X opcode))"
    by (simp add: emulate_8 exec_8_def Let_def sized_def of_bool_and_1)
next
  assume h: "sized' c \<and> fetch' c = Inr opcode \<and> op_X opcode \<noteq> 0xF"
  have X: "op_X opcode < 16" by (rule op_X_lt)
  from h assms X show "\<exists>c'. execute_instruction config rnd c = Inr c' \<and>
              V' c' ! 0xF = V' c ! op_X opcode AND 1 \<and>
              V' c' ! op_X opcode = drop_bit 1 (V' c ! op_X opcode)"
    by (simp add: execute_8 execute_8_def Let_def sized'_def decode_X decode_Y decode_N)
qed

theorem shift_right_witness:
  "op_class 0x8016 = 8 \<and> op_N 0x8016 = 6 \<and>
   sized shift_example \<and> fetch shift_example = Inr 0x8016 \<and>
   (\<exists>s'. emulate_instruction CHIP8 0 shift_example = Inr s' \<and> V s' ! 0xF = 1 \<and> V s' ! 0 = 2) \<and>
   (\<exists>s'. emulate_instruction SUPERCHIP 0 shift_example = Inr s' \<and> V s' ! 0xF = 0 \<and>
          V s' ! 0 = 3) \<and>
   sized' shift_example' \<and> fetch' shift_example' = Inr 0x8016 \<and>
   (\<exists>c'. execute_instruction set_CONFIG 0 shift_example' = Inr c' \<and> V' c' ! 0xF = 0 \<and>
          V' c' ! 0 = 3)"
proof -
  have a: "op_class 0x8016 = 8" by (simp add: op_class_def)
  have b: "op_N 0x8016 = 6" by (simp add: op_N_def)
  have x: "op_X 0x8016 = 0" "op_Y 0x8016 = 1" by (simp_all add: op_X_def op_Y_def)
  have s: "sized shift_example \<and> fetch shift_example = Inr 0x8016"
    by (simp add: shift_example_def sized_boot fetch_boot sized_upd_V)
  have s': "sized' shift_example' \<and> fetch' shift_example' = Inr 0x8016"
    by (simp add: shift_example'_def sized_boot' fetch_boot' sized'_upd_V)
  have v: "V shift_example ! 0 = 6" "V shift_example ! Suc 0 = 5"
    "V' shift_example' ! 0 = 6" "V' shift_example' ! Suc 0 = 5"
    by (simp_all add: shift_example_def shift_example'_def)
  from shift_right [OF a b, where s = shift_example and ext = SUPERCHIP and rnd = 0
      and c = shift_example' and config = set_CONFIG] a b s s'
  show ?thesis
    by (simp add: x v)
qed


text \<open>
  With \<open>X = 0xF\<close> the register ends as the bit shifted out: from \<open>V0 = 2\<close> the
  instruction \<open>8F06\<close> under \<open>CHIP8\<close> leaves \<open>VF = 0\<close>, not \<open>2 >> 1\<close>.
\<close>

theorem shift_right_counterexample:
  "fetch shift_to_vf = Inr 0x8F06 \<and> V shift_to_vf ! 0 = 2 \<and>
   emulate_instruction CHIP8 0 shift_to_vf =
     Inr (shift_to_vf\<lparr>PC := 0x202, V := (V shift_to_vf)[0xF := 0]\<rparr>) \<and>
   (V shift_to_vf)[0xF := 0] ! 0xF \<noteq> drop_bit 1 (2 :: u8)"
proof -
  have f: "fetch shift_to_vf = Inr 0x8F06" by (simp add: shift_to_vf_def fetch_boot)
  have c: "op_class 0x8F06 = 8" by (simp add: op_class_def)
  have p: "PC shift_to_vf = 0x200" by (simp add: shift_to_vf_def boot_eq)
  show ?thesis
    using f p by (simp add: emulate_8 [OF f c] exec_8_def op_N_def op_X_def op_Y_def Let_def)
      (simp add: shift_to_vf_def)
qed


section \<open>Key tests \<open>EX9E\<close> and \<open>EXA1\<close>\<close>

text \<open>
  C9. Both interpreters index the 16 keys with the whole byte \<open>V[X]\<close>. The lookup, and
  with it the skip, has a value exactly when \<open>V[X] \<le> 15\<close>; for every larger \<open>V[X]\<close>
  the access is outside the array.
\<close>

theorem key_lookup:
  assumes "op_class opcode = 0xE" and "op_NN opcode = 0x9E \<or> op_NN opcode = 0xA1"
  shows "(fetch s = Inr opcode \<longrightarrow>
           emulate_instruction ext rnd s =
             (if unat (V s ! op_X opcode) \<le> 15
              then Inr (s\<lparr>PC := PC s +
                     (if keypad s ! unat (V s ! op_X opcode) = (op_NN opcode = 0x9E)
                      then 4 else 2)\<rparr>)
              else Inl KeypadOutOfBounds)) \<and>
         (fetch' c = Inr opcode \<longrightarrow>
           execute_instruction config rnd c =
             (if unat (V' c ! op_X opcode) \<le> 15
              then Inr (c\<lparr>PC' := PC' c +
                     (if key' c ! unat (V' c ! op_X opcode) = (op_NN opcode = 0x9E)
                      then 4 else 2), inst := decode opcode\<rparr>)
              else Inl KeypadOutOfBounds))"
  using assms
  by (auto simp: emulate_instruction_def exec_opcode_def Let_def exec_E_def keypad_read_def
      execute_instruction_def execute_E_def key_read_def decode_X decode_NN decode_class)
theorem key_lookup_witness:
  "op_class 0xE09E = 0xE \<and> op_NN 0xE09E = 0x9E \<and> fetch key_example = Inr 0xE09E \<and>
   unat (V key_example ! 0) = 16 \<and>
   emulate_instruction CHIP8 0 key_example = Inl KeypadOutOfBounds \<and>
   op_class 0xE0A1 = 0xE \<and> op_NN 0xE0A1 = 0xA1 \<and> fetch' key_example' = Inr 0xE0A1 \<and>
   unat (V' key_example' ! 0) = 16 \<and>
   execute_instruction set_CONFIG 0 key_example' = Inl KeypadOutOfBounds"
proof -
  have a: "op_class 0xE09E = 0xE" "op_class 0xE0A1 = 0xE" by (simp_all add: op_class_def)
  have b: "op_NN 0xE09E = 0x9E" "op_NN 0xE0A1 = 0xA1" by (simp_all add: op_NN_def)
  have x: "op_X 0xE09E = 0" "op_X 0xE0A1 = 0" by (simp_all add: op_X_def)
  have f: "fetch key_example = Inr 0xE09E" "fetch' key_example' = Inr 0xE0A1"
    by (simp_all add: key_example_def key_example'_def fetch_boot fetch_boot')
  have v: "unat (V key_example ! 0) = 16" "unat (V' key_example' ! 0) = 16"
    by (simp_all add: key_example_def key_example'_def)
  have b1: "op_NN 0xE09E = 0x9E \<or> op_NN 0xE09E = 0xA1" using b by simp
  have b2: "op_NN 0xE0A1 = 0x9E \<or> op_NN 0xE0A1 = 0xA1" using b by simp
  from key_lookup [OF a(1) b1, where s = key_example and ext = CHIP8 and rnd = 0]
       key_lookup [OF a(2) b2, where c = key_example' and config = set_CONFIG and rnd = 0]
       a b f v
  show ?thesis by (simp add: x)
qed

section \<open>Timers, proved\<close>

text \<open>\<open>update_timers\<close> of the complete emulator counts both timers down to 0.\<close>

lemma update_timers_floor:
  "unat (delay_timer (fst (update_timers s))) = unat (delay_timer s) - 1 \<and>
   unat (sound_timer (fst (update_timers s))) = unat (sound_timer s) - 1"
  by (auto simp: update_timers_def Let_def word_greater_zero_iff unat_minus_one unat_eq_zero)


text \<open>
  C4. \<open>update_timers\<close> of \<^verbatim>\<open>my_chip8.c\<close> never changes the sound timer: after
  \<open>F018\<close> has set it to 5, a tick leaves it at 5.
\<close>

theorem update_timers_sound:
  "(\<exists>c. execute_instruction set_CONFIG 0 tone_example' = Inr c \<and> sound_timer' c = 5 \<and>
        sound_timer' (update_timers' c) = 5) \<and>
   (\<forall>c. sound_timer' (update_timers' c) = sound_timer' c)"
proof -
  have f: "fetch' tone_example' = Inr 0xF018" by (simp add: tone_example'_def fetch_boot')
  have "execute_instruction set_CONFIG 0 tone_example' =
          Inr (tone_example'\<lparr>PC' := PC' tone_example' + 2, inst := decode 0xF018,
                sound_timer' := 5\<rparr>)"
    using f by (simp add: execute_instruction_def Let_def decode_def execute_F_def)
      (simp add: tone_example'_def)
  then show ?thesis by (simp add: update_timers'_def)
qed

section \<open>Snapshots, proved\<close>

lemma le16_inverse: "ucast (ucast w :: u8) OR push_bit 8 (ucast (ucast (drop_bit 8 w) :: u8)) = (w :: u16)"
  by (rule bit_word_eqI) (auto simp: bit_simps)

lemma le32_inverse:
  "ucast (ucast w :: u8) OR push_bit 8 (ucast (ucast (drop_bit 8 w) :: u8))
     OR push_bit 16 (ucast (ucast (drop_bit 16 w) :: u8))
     OR push_bit 24 (ucast (ucast (drop_bit 24 w) :: u8)) = (w :: u32)"
proof (rule bit_word_eqI)
  fix n assume "n < LENGTH(32)"
  then consider "n < 8" | "8 \<le> n \<and> n < 16" | "16 \<le> n \<and> n < 24" | "24 \<le> n \<and> n < 32"
    by fastforce
  then show "bit (ucast (ucast w :: u8) OR push_bit 8 (ucast (ucast (drop_bit 8 w) :: u8))
     OR push_bit 16 (ucast (ucast (drop_bit 16 w) :: u8))
     OR push_bit 24 (ucast (ucast (drop_bit 24 w) :: u8)) :: u32) n = bit w n"
    by cases (auto simp: bit_simps)
qed

lemma words16_le16: "words16 (concat (map le16 ws)) = ws"
  by (induction ws) (simp_all add: le16_def le16_inverse)

lemma words32_le32: "words32 (concat (map le32 ws)) = ws"
  by (induction ws) (simp_all add: le32_def le32_inverse)

lemma words16_single: "hd (words16 (le16 w)) = w"
  by (simp add: le16_def le16_inverse)

lemma byte_bool_inverse: "map byte_bool (map bool_byte bs) = bs"
  by (induction bs) (simp_all add: byte_bool_def bool_byte_def)

lemma length_le16s: "length (concat (map le16 ws)) = 2 * length ws"
  by (induction ws) (simp_all add: le16_def)

lemma length_le32s: "length (concat (map le32 ws)) = 4 * length ws"
  by (induction ws) (simp_all add: le32_def)

lemma take_exact: "length xs = n \<Longrightarrow> take n (xs @ ys) = xs"
  by simp

lemma drop_exact: "length xs = n \<Longrightarrow> drop n (xs @ ys) = ys"
  by simp

lemma read_var_exact:
  "length xs = n \<Longrightarrow>
   read_var n bytes_of store later (xs @ rest) s = later rest (store xs s)"
  by (simp add: read_var_def fread_def)

lemma read_var_exact_end:
  "length xs = n \<Longrightarrow> read_var n bytes_of store later xs s = later [] (store xs s)"
  by (simp add: read_var_def fread_def)

lemma load_save_globals:
  assumes "sized s" and "14398 \<le> room"
  shows "\<exists>f. save_state_globals True room old s = (True, f) \<and>
           load_state_globals f m =
           (True, m\<lparr>ram := ram s, display := display s, pixel_color := pixel_color s,
                    stack := stack s, V := V s, I := I s, PC := PC s,
                    delay_timer := delay_timer s, sound_timer := sound_timer s,
                    keypad := keypad s, stack_ptr := Ptr (location m) 0\<rparr>)"
proof -
  define rest9 where "rest9 = map bool_byte (keypad s)"
  define rest8 where "rest8 = [sound_timer s] @ rest9"
  define rest7 where "rest7 = [delay_timer s] @ rest8"
  define rest6 where "rest6 = le16 (PC s) @ rest7"
  define rest5 where "rest5 = le16 (I s) @ rest6"
  define rest4 where "rest4 = V s @ rest5"
  define rest3 where "rest3 = concat (map le16 (stack s)) @ rest4"
  define rest2 where "rest2 = concat (map le32 (pixel_color s)) @ rest3"
  define rest1 where "rest1 = map bool_byte (display s) @ rest2"
  have n: "length (ram s @ rest1) = 14398"
    using assms(1)
    by (simp add: sized_def length_le16s length_le32s le16_def rest1_def rest2_def rest3_def
        rest4_def rest5_def rest6_def rest7_def rest8_def rest9_def)
  have "save_state_globals True room old s =
      (let bytes = ram s @ rest1
       in if room < length bytes then (False, Some (take room bytes)) else (True, Some bytes))"
    by (simp add: save_state_globals_def rest1_def rest2_def rest3_def rest4_def rest5_def
        rest6_def rest7_def rest8_def rest9_def)
  then have sv: "save_state_globals True room old s = (True, Some (ram s @ rest1))"
    using n assms(2) by (simp add: Let_def)
  have l: "length (ram s) = 4096" "length (map bool_byte (display s)) = 2048"
    "length (concat (map le32 (pixel_color s))) = 8192"
    "length (concat (map le16 (stack s))) = 24" "length (V s) = 16"
    "length (le16 (I s)) = 2" "length (le16 (PC s)) = 2"
    "length [delay_timer s] = 1" "length [sound_timer s] = 1"
    "length (map bool_byte (keypad s)) = 16"
    using assms(1) by (simp_all add: sized_def length_le16s length_le32s le16_def)
  have "load_state_globals (Some (ram s @ rest1)) m =
      (True, m\<lparr>ram := ram s, display := display s, pixel_color := pixel_color s,
               stack := stack s, V := V s, I := I s, PC := PC s,
               delay_timer := delay_timer s, sound_timer := sound_timer s,
               keypad := keypad s, stack_ptr := Ptr (location m) 0\<rparr>)"
    unfolding load_state_globals_def option.case
      read_var_exact [OF l(1)] rest1_def read_var_exact [OF l(2)]
      rest2_def read_var_exact [OF l(3)] rest3_def read_var_exact [OF l(4)]
      rest4_def read_var_exact [OF l(5)] rest5_def read_var_exact [OF l(6)]
      rest6_def read_var_exact [OF l(7)] rest7_def read_var_exact [OF l(8)]
      rest8_def read_var_exact [OF l(9)] rest9_def read_var_exact_end [OF l(10)]
      words16_le16 words32_le32 words16_single byte_bool_inverse list.sel
    by simp
  with sv show ?thesis by simp
qed

lemma load_save:
  "load_state (snd (save_state True True old s)) m =
     (True, Some (m\<lparr>state := state s, ram := ram s, display := display s,
             pixel_color := pixel_color s, stack := stack s, stack_ptr := stack_ptr s,
             V := V s, I := I s, PC := PC s, delay_timer := delay_timer s,
             sound_timer := sound_timer s, keypad := keypad s, rom_name := rom_name s,
             draw := draw s\<rparr>))"
  by (simp add: load_state_def save_state_def)

lemma differ_static: "any_key_pressed a \<noteq> any_key_pressed b \<Longrightarrow> a \<noteq> b"
  by auto

lemma same_object:
  "location (m :: Machine) = location (s :: Machine) \<Longrightarrow>
   m\<lparr>state := state s, ram := ram s, display := display s,
      pixel_color := pixel_color s, stack := stack s, stack_ptr := stack_ptr s,
      V := V s, I := I s, PC := PC s, delay_timer := delay_timer s,
      sound_timer := sound_timer s, keypad := keypad s, rom_name := rom_name s,
      draw := draw s\<rparr> = s\<lparr>any_key_pressed := any_key_pressed m, key := key m\<rparr>"
  by (cases m, cases s) simp

lemma sized_held: "sized held"
  using sized_boot [of "[0xF0, 0x0A]"] by (simp add: held_eq sized_def)

text \<open>
  C5 (as amended). What \<open>save_state\<close> wrote, \<open>load_state\<close> reads back into whatever
  machine loads it, and after the load every member of the struct that is not a
  pointer has the value it had in the machine saved: \<open>state\<close>, \<open>ram\<close>, \<open>display\<close>,
  the pixel colours, \<open>stack\<close>, \<open>V\<close>, \<open>I\<close>, \<open>PC\<close>, both timers, \<open>keypad\<close> and the
  \<open>draw\<close> flag. Loaded into the struct that was saved, the pointers are those saved
  too, and the machine is the one saved but for the static locals. The variant with
  global variables restores \<open>ram\<close>, \<open>display\<close>, the pixel colours, \<open>stack\<close>, \<open>V\<close>,
  \<open>I\<close>, \<open>PC\<close>, both timers and \<open>keypad\<close>. In both, the key captured by an \<open>FX0A\<close>
  in progress is not part of the snapshot: after the load, \<open>any_key_pressed\<close> and
  \<open>key\<close> are those of the loading machine.
\<close>

theorem snapshot_round_trip:
  "(\<exists>f m'. save_state True True old s = (True, f) \<and> load_state f m = (True, Some m') \<and>
      state m' = state s \<and> ram m' = ram s \<and> display m' = display s \<and>
      pixel_color m' = pixel_color s \<and> stack m' = stack s \<and> V m' = V s \<and> I m' = I s \<and>
      PC m' = PC s \<and> delay_timer m' = delay_timer s \<and> sound_timer m' = sound_timer s \<and>
      keypad m' = keypad s \<and> draw m' = draw s \<and>
      any_key_pressed m' = any_key_pressed m \<and> key m' = key m \<and>
      (location m = location s \<longrightarrow>
         m' = s\<lparr>any_key_pressed := any_key_pressed m, key := key m\<rparr>)) \<and>
   (sized s \<and> 14398 \<le> room \<longrightarrow>
     (\<exists>f m'. save_state_globals True room old' s = (True, f) \<and>
        load_state_globals f m = (True, m') \<and>
        ram m' = ram s \<and> display m' = display s \<and> pixel_color m' = pixel_color s \<and>
        stack m' = stack s \<and> V m' = V s \<and> I m' = I s \<and> PC m' = PC s \<and>
        delay_timer m' = delay_timer s \<and> sound_timer m' = sound_timer s \<and>
        keypad m' = keypad s \<and>
        any_key_pressed m' = any_key_pressed m \<and> key m' = key m))"
proof (intro conjI impI)
  have "save_state True True old s = (True, snd (save_state True True old s))"
    by (simp add: save_state_def)
  with load_save [of old s m] same_object [of m s]
  show "\<exists>f m'. save_state True True old s = (True, f) \<and> load_state f m = (True, Some m') \<and>
      state m' = state s \<and> ram m' = ram s \<and> display m' = display s \<and>
      pixel_color m' = pixel_color s \<and> stack m' = stack s \<and> V m' = V s \<and> I m' = I s \<and>
      PC m' = PC s \<and> delay_timer m' = delay_timer s \<and> sound_timer m' = sound_timer s \<and>
      keypad m' = keypad s \<and> draw m' = draw s \<and>
      any_key_pressed m' = any_key_pressed m \<and> key m' = key m \<and>
      (location m = location s \<longrightarrow>
         m' = s\<lparr>any_key_pressed := any_key_pressed m, key := key m\<rparr>)"
    by auto
next
  assume "sized s \<and> 14398 \<le> room"
  then obtain f where "save_state_globals True room old' s = (True, f)"
    and "load_state_globals f m =
           (True, m\<lparr>ram := ram s, display := display s, pixel_color := pixel_color s,
                    stack := stack s, V := V s, I := I s, PC := PC s,
                    delay_timer := delay_timer s, sound_timer := sound_timer s,
                    keypad := keypad s, stack_ptr := Ptr (location m) 0\<rparr>)"
    using load_save_globals [of s room old' m] by auto
  then show "\<exists>f m'. save_state_globals True room old' s = (True, f) \<and>
        load_state_globals f m = (True, m') \<and>
        ram m' = ram s \<and> display m' = display s \<and> pixel_color m' = pixel_color s \<and>
        stack m' = stack s \<and> V m' = V s \<and> I m' = I s \<and> PC m' = PC s \<and>
        delay_timer m' = delay_timer s \<and> sound_timer m' = sound_timer s \<and>
        keypad m' = keypad s \<and>
        any_key_pressed m' = any_key_pressed m \<and> key m' = key m"
    by simp
qed

theorem snapshot_round_trip_witness:
  "sized held \<and> location released = location held \<and>
   load_state (snd (save_state True True NoFile held)) released =
     (True, Some (boot [0xF0, 0x0A])) \<and>
   (\<exists>m'. load_state_globals (snd (save_state_globals True 14398 None held)) released =
        (True, m') \<and> PC m' = 0x200 \<and> \<not> any_key_pressed m' \<and> key m' = 0xFF)"
proof -
  have b: "boot [0xF0, 0x0A] = held\<lparr>any_key_pressed := False, key := 0xFF\<rparr>"
    by (simp add: held_eq boot_eq zeroed_def)
  have r: "any_key_pressed released = False" "key released = 0xFF"
    "location released = location held"
    by (simp_all add: released_def)
  have p: "PC held = 0x200" by (simp add: held_eq boot_eq)
  from snapshot_round_trip [of NoFile held released 14398 None] sized_held b r p
  show ?thesis
    by auto
qed

text \<open>
  A snapshot taken at \<open>FX0A\<close> with key 5 captured, loaded after the key was stored:
  the loaded machine is back at the instruction with no key captured, and differs from
  the machine saved.
\<close>

theorem snapshot_counterexample:
  "emulate_instruction CHIP8 0 held = Inr released \<and>
   any_key_pressed held \<and> key held = 5 \<and>
   (\<exists>m'. load_state (snd (save_state True True NoFile held)) released = (True, Some m') \<and>
      \<not> any_key_pressed m' \<and> key m' = 0xFF \<and> m' \<noteq> held) \<and>
   (\<exists>m'. load_state_globals (snd (save_state_globals True 14398 None held)) released =
        (True, m') \<and> \<not> any_key_pressed m' \<and> key m' = 0xFF \<and> m' \<noteq> held)"
proof -
  have e: "emulate_instruction CHIP8 0 held = Inr released" by (rule emulate_held)
  have h: "any_key_pressed held" "key held = 5" by (simp_all add: held_eq)
  have r: "any_key_pressed released = False" "key released = 0xFF"
    by (simp_all add: released_def)
  have a: "\<exists>m'. load_state (snd (save_state True True NoFile held)) released =
      (True, Some m') \<and> \<not> any_key_pressed m' \<and> key m' = 0xFF \<and> m' \<noteq> held"
  proof -
    let ?m = "released\<lparr>state := state held, ram := ram held, display := display held,
             pixel_color := pixel_color held, stack := stack held,
             stack_ptr := stack_ptr held, V := V held, I := I held, PC := PC held,
             delay_timer := delay_timer held, sound_timer := sound_timer held,
             keypad := keypad held, rom_name := rom_name held, draw := draw held\<rparr>"
    have l: "load_state (snd (save_state True True NoFile held)) released = (True, Some ?m)"
      by (rule load_save)
    have n: "\<not> any_key_pressed ?m" "key ?m = 0xFF" using r by simp_all
    have d: "?m \<noteq> held" by (rule differ_static) (simp add: h r)
    show ?thesis
      by (intro exI [of _ ?m] conjI l n d)
  qed
  have g: "\<exists>m'. load_state_globals (snd (save_state_globals True 14398 None held))
      released = (True, m') \<and> \<not> any_key_pressed m' \<and> key m' = 0xFF \<and> m' \<noteq> held"
  proof -
    let ?m = "released\<lparr>ram := ram held, display := display held,
                    pixel_color := pixel_color held, stack := stack held, V := V held,
                    I := I held, PC := PC held, delay_timer := delay_timer held,
                    sound_timer := sound_timer held, keypad := keypad held,
                    stack_ptr := Ptr (location released) 0\<rparr>"
    obtain f where s: "save_state_globals True 14398 None held = (True, f)"
      and "load_state_globals f released = (True, ?m)"
      using load_save_globals [OF sized_held, of 14398 None released] by blast
    then have l: "load_state_globals (snd (save_state_globals True 14398 None held))
        released = (True, ?m)"
      by simp
    have n: "\<not> any_key_pressed ?m" "key ?m = 0xFF" using r by simp_all
    have d: "?m \<noteq> held" by (rule differ_static) (simp add: h r)
    show ?thesis
      by (intro exI [of _ ?m] conjI l n d)
  qed
  show ?thesis
    by (intro conjI e h a g)
qed


section \<open>The program counter\<close>

text \<open>
  C6 (as amended). Construction sets \<open>PC = 0x200\<close>, where the fetch lies inside
  \<open>ram\<close>. The interpreter has no check of \<open>PC\<close>: the two bytes it fetches lie inside
  the 4096 bytes exactly when \<open>PC \<le> 4094\<close>, and with a larger \<open>PC\<close> the fetch reads
  outside the array.
\<close>

theorem pc_fetch:
  "((\<exists>opcode. fetch s = Inr opcode) \<longleftrightarrow> unat (PC s) \<le> 4094) \<and>
   (unat (PC s) > 4094 \<longrightarrow> emulate_instruction ext rnd s = Inl RamOutOfBounds) \<and>
   (init_chip8 file name chip8 = Some s0 \<longrightarrow> PC s0 = 0x200 \<and> (\<exists>opcode. fetch s0 = Inr opcode))"
  by (auto simp: fetch_def ram_read_def emulate_instruction_def init_chip8_def Let_def
      split: option.splits if_splits)


theorem pc_fetch_witness:
  "init_chip8 (Some [0x1F, 0xFF]) argv1 zeroed = Some jump_example \<and>
   PC jump_example = 0x200 \<and> fetch jump_example = Inr 0x1FFF \<and>
   unat (PC (jump_example\<lparr>PC := 0xFFF\<rparr>)) > 4094 \<and>
   emulate_instruction CHIP8 0 (jump_example\<lparr>PC := 0xFFF\<rparr>) = Inl RamOutOfBounds"
proof -
  have i: "init_chip8 (Some [0x1F, 0xFF]) argv1 zeroed = Some jump_example"
    by (simp add: jump_example_def boot_def init_chip8_def Let_def)
  have f: "fetch jump_example = Inr 0x1FFF" by (simp add: jump_example_def fetch_boot)
  have u: "unat (PC (jump_example\<lparr>PC := 0xFFF\<rparr>)) > 4094" by simp
  from pc_fetch [of jump_example CHIP8 0 "Some [0x1F, 0xFF]" argv1 zeroed jump_example]
    pc_fetch [of "jump_example\<lparr>PC := 0xFFF\<rparr>" CHIP8 0 "Some [0x1F, 0xFF]" argv1 zeroed
      jump_example] i f u
  show ?thesis by simp
qed


text \<open>The program \<open>1FFF\<close> leaves \<open>PC = 4095\<close> after one step.\<close>

theorem pc_bound_counterexample:
  "run CHIP8 [0] jump_example = Inr (jump_example\<lparr>PC := 0xFFF\<rparr>) \<and>
   \<not> unat (PC (jump_example\<lparr>PC := 0xFFF\<rparr>)) \<le> 4094 \<and>
   fetch (jump_example\<lparr>PC := 0xFFF\<rparr>) = Inl RamOutOfBounds"
proof -
  have f: "fetch jump_example = Inr 0x1FFF" by (simp add: jump_example_def fetch_boot)
  have "emulate_instruction CHIP8 0 jump_example = Inr (jump_example\<lparr>PC := 0xFFF\<rparr>)"
    using f by (simp add: emulate_instruction_def exec_opcode_def op_class_def op_NNN_def Let_def)
  then show ?thesis by (simp add: fetch_def ram_read_def)
qed

section \<open>Storing registers, \<open>FX55\<close>\<close>

text \<open>
  In the complete emulator \<open>FX55\<close> writes \<open>V0\<close> to \<open>Vx\<close> to \<open>ram[I]\<close> to
  \<open>ram[I + X]\<close> and nothing else; under \<open>CHIP8\<close> it leaves \<open>I\<close> advanced by
  \<open>X + 1\<close>, otherwise unchanged.
\<close>

lemma unat_I_succ: "unat (w :: u16) < 4096 \<Longrightarrow> unat (w + 1) = unat w + 1"
  by (simp add: unat_word_ariths)

lemma exec_F55_CHIP8:
  assumes "length (ram s) = 4096" and "unat (I s) + (Suc X - i) \<le> 4096"
  shows "\<exists>r. exec_F55 CHIP8 i X s = Inr (s\<lparr>ram := r, I := I s + word_of_nat (Suc X - i)\<rparr>) \<and>
           length r = 4096 \<and>
           (\<forall>a<4096. r ! a =
              (if unat (I s) \<le> a \<and> a < unat (I s) + (Suc X - i)
               then V s ! (i + (a - unat (I s))) else ram s ! a))"
  using assms
proof (induction CHIP8 i X s rule: exec_F55.induct)
  case (1 i X s)
  show ?case
  proof (cases "i \<le> X")
    case False
    then have "exec_F55 CHIP8 i X s = Inr s" by (subst exec_F55.simps) simp
    moreover have "Suc X - i = 0" using False by simp
    ultimately show ?thesis using "1.prems"
      by (intro exI [of _ "ram s"]) auto
  next
    case True
    let ?a = "unat (I s)"
    let ?s1 = "s\<lparr>ram := (ram s)[?a := V s ! i]\<rparr>"
    let ?s2 = "?s1\<lparr>I := I ?s1 + 1\<rparr>"
    from True "1.prems" have inb: "?a < 4096" by simp
    then have w: "ram_write ?a (V s ! i) s = Inr ?s1" by (simp add: ram_write_def)
    have I2: "unat (I ?s2) = ?a + 1" using inb by (simp add: unat_I_succ)
    have n: "Suc X - i = Suc (Suc X - (i + 1))" using True by simp
    have "\<exists>r. exec_F55 CHIP8 (i + 1) X ?s2 =
             Inr (?s2\<lparr>ram := r, I := I ?s2 + word_of_nat (Suc X - (i + 1))\<rparr>) \<and>
           length r = 4096 \<and>
           (\<forall>a<4096. r ! a =
              (if unat (I ?s2) \<le> a \<and> a < unat (I ?s2) + (Suc X - (i + 1))
               then V ?s2 ! (i + 1 + (a - unat (I ?s2))) else ram ?s2 ! a))"
    proof (rule "1.hyps"(1) [OF True refl w])
      show "length (ram ?s2) = 4096" using "1.prems" by simp
      show "unat (I ?s2) + (Suc X - (i + 1)) \<le> 4096" using "1.prems" True I2 by simp
    qed
    then obtain r where
      e: "exec_F55 CHIP8 (i + 1) X ?s2 =
             Inr (?s2\<lparr>ram := r, I := I ?s2 + word_of_nat (Suc X - (i + 1))\<rparr>)"
      and lr: "length r = 4096"
      and rr: "\<forall>a<4096. r ! a =
              (if unat (I ?s2) \<le> a \<and> a < unat (I ?s2) + (Suc X - (i + 1))
               then V ?s2 ! (i + 1 + (a - unat (I ?s2))) else ram ?s2 ! a)"
      by blast
    have step: "exec_F55 CHIP8 i X s = exec_F55 CHIP8 (i + 1) X ?s2"
      using True w by (subst exec_F55.simps) simp
    have st: "?s2\<lparr>ram := r, I := I ?s2 + word_of_nat (Suc X - (i + 1))\<rparr> =
        s\<lparr>ram := r, I := I s + word_of_nat (Suc X - i)\<rparr>"
      by (subst n) simp
    have cells: "r ! a = (if ?a \<le> a \<and> a < ?a + (Suc X - i)
               then V s ! (i + (a - ?a)) else ram s ! a)" if "a < 4096" for a
    proof (cases "a = ?a")
      case True
      then have "r ! a = ram ?s2 ! a" using rr that I2 by simp
      also have "\<dots> = V s ! i" using True "1.prems" inb by simp
      finally have "r ! a = V s ! i" .
      moreover have "?a \<le> a \<and> a < ?a + (Suc X - i)" using True \<open>i \<le> X\<close> by arith
      moreover have "i + (a - ?a) = i" using True by simp
      ultimately show ?thesis by (simp only: simp_thms if_True)
    next
      case False
      have "r ! a = (if ?a + 1 \<le> a \<and> a < ?a + 1 + (Suc X - (i + 1))
               then V s ! (i + 1 + (a - (?a + 1))) else ram s ! a)"
        using rr that False unfolding I2 by simp
      moreover have "i + 1 + (a - (?a + 1)) = i + (a - ?a)" if "?a + 1 \<le> a"
        using that by simp
      ultimately show ?thesis using False n \<open>i \<le> X\<close> by auto
    qed
    from step e st lr cells show ?thesis by (intro exI [of _ r]) simp
  qed
qed


lemma exec_F55_other:
  assumes "ext \<noteq> CHIP8" and "length (ram s) = 4096" and "i \<le> X \<longrightarrow> unat (I s) + X < 4096"
  shows "\<exists>r. exec_F55 ext i X s = Inr (s\<lparr>ram := r\<rparr>) \<and> length r = 4096 \<and>
           (\<forall>a<4096. r ! a =
              (if unat (I s) + i \<le> a \<and> a \<le> unat (I s) + X
               then V s ! (a - unat (I s)) else ram s ! a))"
  using assms
proof (induction ext i X s rule: exec_F55.induct)
  case (1 ext i X s)
  show ?case
  proof (cases "i \<le> X")
    case False
    then have "exec_F55 ext i X s = Inr s" by (subst exec_F55.simps) simp
    then show ?thesis using "1.prems" False
      by (intro exI [of _ "ram s"]) auto
  next
    case True
    let ?a = "unat (I s) + i"
    let ?s1 = "s\<lparr>ram := (ram s)[?a := V s ! i]\<rparr>"
    from True "1.prems" have inb: "?a < 4096" by simp
    then have w: "ram_write ?a (V s ! i) s = Inr ?s1" by (simp add: ram_write_def)
    have "\<exists>r. exec_F55 ext (i + 1) X ?s1 = Inr (?s1\<lparr>ram := r\<rparr>) \<and> length r = 4096 \<and>
           (\<forall>a<4096. r ! a =
              (if unat (I ?s1) + (i + 1) \<le> a \<and> a \<le> unat (I ?s1) + X
               then V ?s1 ! (a - unat (I ?s1)) else ram ?s1 ! a))"
    proof (rule "1.IH"(2) [OF True "1.prems"(1) w "1.prems"(1)])
      show "length (ram ?s1) = 4096" using "1.prems" by simp
      show "i + 1 \<le> X \<longrightarrow> unat (I ?s1) + X < 4096" using "1.prems" True by simp
    qed
    then obtain r where
      e: "exec_F55 ext (i + 1) X ?s1 = Inr (?s1\<lparr>ram := r\<rparr>)"
      and lr: "length r = 4096"
      and rr: "\<forall>a<4096. r ! a =
              (if unat (I ?s1) + (i + 1) \<le> a \<and> a \<le> unat (I ?s1) + X
               then V ?s1 ! (a - unat (I ?s1)) else ram ?s1 ! a)"
      by blast
    have step: "exec_F55 ext i X s = exec_F55 ext (i + 1) X ?s1"
      using True w "1.prems"(1) by (subst exec_F55.simps) simp
    have st: "?s1\<lparr>ram := r\<rparr> = s\<lparr>ram := r\<rparr>" by simp
    have cells: "r ! a = (if ?a \<le> a \<and> a \<le> unat (I s) + X
               then V s ! (a - unat (I s)) else ram s ! a)" if "a < 4096" for a
    proof (cases "a = ?a")
      case True
      then have "r ! a = ram ?s1 ! a" using rr that by simp
      also have "\<dots> = V s ! i" using True "1.prems" inb by simp
      finally show ?thesis using True \<open>i \<le> X\<close> by simp
    next
      case False
      have "r ! a = (if ?a + 1 \<le> a \<and> a \<le> unat (I s) + X
               then V s ! (a - unat (I s)) else ram s ! a)"
        using rr that False by simp
      then show ?thesis using False by auto
    qed
    from step e st lr cells show ?thesis by (intro exI [of _ r]) simp
  qed
qed

lemma emulate_F55:
  assumes "fetch s = Inr opcode" and "op_class opcode = 0xF" and "op_NN opcode = 0x55"
  shows "emulate_instruction ext rnd s = exec_F55 ext 0 (op_X opcode) (s\<lparr>PC := PC s + 2\<rparr>)"
  using assms by (simp add: emulate_instruction_def exec_opcode_def Let_def exec_F_def)

lemma store_registers:
  assumes "sized s" and "fetch s = Inr opcode" and "op_class opcode = 0xF"
    and "op_NN opcode = 0x55" and "unat (I s) + op_X opcode < 4096"
  shows "\<exists>s'. emulate_instruction ext rnd s = Inr s' \<and>
           (\<forall>a<4096. ram s' ! a =
              (if unat (I s) \<le> a \<and> a \<le> unat (I s) + op_X opcode
               then V s ! (a - unat (I s)) else ram s ! a)) \<and>
           V s' = V s \<and>
           I s' = (if ext = CHIP8 then I s + word_of_nat (op_X opcode + 1) else I s)"
proof (cases "ext = CHIP8")
  case True
  let ?s1 = "s\<lparr>PC := PC s + 2\<rparr>"
  have l: "length (ram ?s1) = 4096" using assms(1) by (simp add: sized_def)
  have b: "unat (I ?s1) + (Suc (op_X opcode) - 0) \<le> 4096" using assms(5) by simp
  from exec_F55_CHIP8 [OF l b] obtain r where
    "exec_F55 CHIP8 0 (op_X opcode) ?s1 =
       Inr (?s1\<lparr>ram := r, I := I ?s1 + word_of_nat (Suc (op_X opcode) - 0)\<rparr>)"
    and "\<forall>a<4096. r ! a =
              (if unat (I ?s1) \<le> a \<and> a < unat (I ?s1) + (Suc (op_X opcode) - 0)
               then V ?s1 ! (0 + (a - unat (I ?s1))) else ram ?s1 ! a)"
    by blast
  with True emulate_F55 [OF assms(2,3,4), of ext rnd] show ?thesis
    by (auto simp: less_Suc_eq_le)
next
  case False
  let ?s1 = "s\<lparr>PC := PC s + 2\<rparr>"
  have l: "length (ram ?s1) = 4096" using assms(1) by (simp add: sized_def)
  have b: "0 \<le> op_X opcode \<longrightarrow> unat (I ?s1) + op_X opcode < 4096" using assms(5) by simp
  from exec_F55_other [OF False l b] obtain r where
    "exec_F55 ext 0 (op_X opcode) ?s1 = Inr (?s1\<lparr>ram := r\<rparr>)"
    and "\<forall>a<4096. r ! a =
              (if unat (I ?s1) + 0 \<le> a \<and> a \<le> unat (I ?s1) + op_X opcode
               then V ?s1 ! (a - unat (I ?s1)) else ram ?s1 ! a)"
    by blast
  with False emulate_F55 [OF assms(2,3,4), of ext rnd] show ?thesis
    by auto
qed


text \<open>
  C3. \<open>FX55\<close> of \<^verbatim>\<open>my_chip8.c\<close> copies all 16 registers: with \<open>X = 0\<close>, \<open>V1 = 7\<close>
  and \<open>I = 0x300\<close> it writes 7 to \<open>memory[0x301]\<close>, and it leaves \<open>I\<close> at \<open>0x300\<close>
  although the extension is \<open>CHIP8\<close>.
\<close>

theorem store_all_registers:
  "fetch' store_example' = Inr 0xF055 \<and> op_X 0xF055 = 0 \<and>
   extension store_example' = CHIP8 \<and> memory store_example' ! 0x301 = 0 \<and>
   (\<exists>c. execute_instruction set_CONFIG 0 store_example' = Inr c \<and>
        memory c ! 0x300 = 1 \<and> memory c ! 0x301 = 7 \<and> I' c = 0x300)"
proof -
  have f: "fetch' store_example' = Inr 0xF055"
    by (simp add: store_example'_def fetch'_def memory_read_def boot'_eq nth_append fontset_def
        zeroed'_def)
  have x: "op_X 0xF055 = 0" by (simp add: op_X_def)
  have m: "memory store_example' ! 0x301 = 0" "extension store_example' = CHIP8"
    "length (memory store_example') = 4096" "I' store_example' = 0x300"
    "V' store_example' = (replicate 16 0)[0 := 1, 1 := 7]"
    by (simp_all add: store_example'_def boot'_eq nth_append fontset_def zeroed'_def)
  have e: "execute_instruction set_CONFIG 0 store_example' =
      Inr (store_example'\<lparr>PC' := PC' store_example' + 2, inst := decode 0xF055,
            memory := take 0x300 (memory store_example') @ take 16 (V' store_example')
                @ drop (0x300 + 16) (memory store_example')\<rparr>)"
    using f m(4) by (simp add: execute_instruction_def Let_def decode_def execute_F_def
        execute_F55_def)
  have c: "(take 0x300 (memory store_example') @ take 16 (V' store_example')
                @ drop (0x300 + 16) (memory store_example')) ! 0x300 = 1"
    "(take 0x300 (memory store_example') @ take 16 (V' store_example')
                @ drop (0x300 + 16) (memory store_example')) ! 0x301 = 7"
    using m(3) by (simp_all add: nth_append m(5))
  from f x m e c show ?thesis by simp
qed

end
